theory Spec2Isabelle
  imports Complex_Main
begin

section \<open>Values, shapes and operands\<close>

text \<open>
  The reduction drivers of \<^verbatim>\<open>light_mat/mateval/internal/mat_reduce_internal.h\<close> are
  templates over the value type \<^verbatim>\<open>T\<close>.  The embedding keeps \<^verbatim>\<open>T\<close> as a type variable:
  its arithmetic (\<open>+\<close>, \<open>*\<close>, \<open>/\<close>, unary \<open>-\<close>, \<open><\<close>) comes from the purely syntactic type
  classes, so no algebraic law is assumed and every theorem also holds for an arithmetic
  that rounds.  What \<^verbatim>\<open>std::numeric_limits<T>\<close> gives, and the conversion \<^verbatim>\<open>T(i)\<close> of an
  integer (\<open>cast T i\<close>, so that \<^verbatim>\<open>T(0)\<close> is \<open>cast T 0\<close>), are passed in a record.
\<close>

record 'a value_type =
  cast :: "nat \<Rightarrow> 'a"
  infinity :: 'a
  quiet_NaN :: 'a

text \<open>
  A violated precondition: an access at a linear index outside the buffer, an aligned
  access at an address that is not aligned, a partial access with a lane count outside
  \<open>1, ..., width\<close>, and two operands whose shapes differ.
\<close>

datatype error = OutOfRange nat | Misaligned nat | BadCount nat | ShapeMismatch

text \<open>
  The access tag: \<^verbatim>\<open>atags::scalar\<close>, or \<^verbatim>\<open>atags::simd<Kind>\<close> with the pack width of
  \<^verbatim>\<open>simd_pack<T, Kind>\<close> (4 for float and 2 for double under SSE).
\<close>

datatype atag = Scalar | Simd nat

type_synonym 'a pack = "'a list"

record matrix_shape =
  nrows :: nat
  ncolumns :: nat

text \<open>A dense operand: its shape and its elements in column-major order.\<close>

record 'a dense_matrix =
  shape :: matrix_shape
  elems :: "'a list"

definition nelems :: "matrix_shape \<Rightarrow> nat" where
  "nelems sh = nrows sh * ncolumns sh"

definition has_shape :: "'a dense_matrix \<Rightarrow> matrix_shape \<Rightarrow> bool" where
  "has_shape A sh \<longleftrightarrow> shape A = sh \<and> length (elems A) = nelems sh"

text \<open>Sequencing of fallible steps, and the counted loop \<^verbatim>\<open>for (i = ...; i < n; ++i)\<close>.\<close>

fun sequence_err :: "(error + 'a) list \<Rightarrow> error + 'a list" where
  "sequence_err [] = Inr []"
| "sequence_err (r # rs) =
     (case r of Inl e \<Rightarrow> Inl e
      | Inr x \<Rightarrow> (case sequence_err rs of Inl e \<Rightarrow> Inl e | Inr xs \<Rightarrow> Inr (x # xs)))"

fun for_each :: "nat list \<Rightarrow> (nat \<Rightarrow> 's \<Rightarrow> error + 's) \<Rightarrow> 's \<Rightarrow> error + 's" where
  "for_each [] body s = Inr s"
| "for_each (i # is) body s =
     (case body i s of Inl e \<Rightarrow> Inl e | Inr s' \<Rightarrow> for_each is body s')"

section \<open>Accessors\<close>

text \<open>
  Modelled from the spec: the accessor classes (\<^verbatim>\<open>make_multicol_accessor\<close>,
  \<^verbatim>\<open>make_vec_accessor\<close>, \<^verbatim>\<open>in_\<close>, \<open>out_\<close>, \<^verbatim>\<open>in_out_\<close>) are not among the sources.
  Section 6 of the spec: a matrix view gives a "per-column accessor yielding a linear,
  possibly-SIMD-enabled reader for that column".  A column reader is the operand's
  buffer with the offset of the column; \<open>VecRef\<close> reads the driver's own output vector
  (the vector \<^verbatim>\<open>in_(dmat)\<close> aliases); \<open>Single\<close> is \<^verbatim>\<open>in_(c, atags::single())\<close>, one scalar
  for every index.
\<close>

datatype 'a accessor = ColReader "'a list" nat | VecRef | Single 'a

record 'a multicol_reader =
  data :: "'a list"
  ldim :: nat

definition make_multicol_accessor :: "atag \<Rightarrow> 'a dense_matrix \<Rightarrow> 'a multicol_reader" where
  "make_multicol_accessor u wrap = \<lparr>data = elems wrap, ldim = nrows (shape wrap)\<rparr>"

definition col :: "'a multicol_reader \<Rightarrow> nat \<Rightarrow> 'a accessor" where
  "col rd j = ColReader (data rd) (j * ldim rd)"

fun scalar :: "'a accessor \<Rightarrow> 'a list \<Rightarrow> nat \<Rightarrow> error + 'a" where
  "scalar (ColReader buf base) dmat i =
     (if base + i < length buf then Inr (buf ! (base + i)) else Inl (OutOfRange (base + i)))"
| "scalar VecRef dmat i =
     (if i < length dmat then Inr (dmat ! i) else Inl (OutOfRange i))"
| "scalar (Single c) dmat i = Inr c"

text \<open>A pack read at index \<open>i\<close> is the \<open>w\<close> lanes \<open>i, ..., i + w - 1\<close>.\<close>

definition pack :: "nat \<Rightarrow> 'a accessor \<Rightarrow> 'a list \<Rightarrow> nat \<Rightarrow> error + 'a pack" where
  "pack w acc dmat i = sequence_err (map (scalar acc dmat) [i..<i + w])"

definition store :: "'a list \<Rightarrow> nat \<Rightarrow> 'a \<Rightarrow> error + 'a list" where
  "store dmat i v = (if i < length dmat then Inr (dmat[i := v]) else Inl (OutOfRange i))"

definition store_pack :: "nat \<Rightarrow> 'a list \<Rightarrow> nat \<Rightarrow> 'a pack \<Rightarrow> error + 'a list" where
  "store_pack w dmat i p =
     for_each [0..<w] (\<lambda>l d. if l < length p then store d (i + l) (p ! l) else Inr d) dmat"

section \<open>Folders and empty values\<close>

text \<open>\<^verbatim>\<open>empty_values<T>\<close>, lines 142-156 of the header.\<close>

definition empty_values_sum :: "'a value_type \<Rightarrow> 'a" where
  "empty_values_sum T = cast T 0"

definition empty_values_mean :: "'a value_type \<Rightarrow> 'a" where
  "empty_values_mean T = quiet_NaN T"

definition empty_values_maximum :: "'a::uminus value_type \<Rightarrow> 'a" where
  "empty_values_maximum T = - infinity T"

definition empty_values_minimum :: "'a value_type \<Rightarrow> 'a" where
  "empty_values_minimum T = infinity T"

text \<open>
  Modelled from the spec: the folder classes \<^verbatim>\<open>sum_folder\<close>, \<^verbatim>\<open>maximum_folder\<close> and
  \<^verbatim>\<open>minimum_folder\<close> (\<^verbatim>\<open>light_mat/mateval/mat_fold.h\<close>) are not among the sources.  The
  table of section 4.3 gives the fold step and the empty value of each kind, and
  requires the step on packs to be the step on scalars, lane by lane.
\<close>

record 'a folder =
  fold_scalar :: "'a \<Rightarrow> 'a \<Rightarrow> 'a"
  fold_pack :: "'a pack \<Rightarrow> 'a pack \<Rightarrow> 'a pack"
  empty_value :: 'a

definition lanewise :: "('a \<Rightarrow> 'a \<Rightarrow> 'a) \<Rightarrow> 'a pack \<Rightarrow> 'a pack \<Rightarrow> 'a pack" where
  "lanewise f a x = map (\<lambda>(u, v). f u v) (zip a x)"

definition sum_folder :: "'a::plus value_type \<Rightarrow> 'a folder" where
  "sum_folder T =
     \<lparr>fold_scalar = (\<lambda>a x. a + x),
      fold_pack = lanewise (\<lambda>a x. a + x),
      empty_value = empty_values_sum T\<rparr>"

definition maximum_folder :: "'a::{ord,uminus} value_type \<Rightarrow> 'a folder" where
  "maximum_folder T =
     \<lparr>fold_scalar = (\<lambda>a x. if x > a then x else a),
      fold_pack = lanewise (\<lambda>a x. if x > a then x else a),
      empty_value = empty_values_maximum T\<rparr>"

definition minimum_folder :: "'a::ord value_type \<Rightarrow> 'a folder" where
  "minimum_folder T =
     \<lparr>fold_scalar = (\<lambda>a x. if x < a then x else a),
      fold_pack = lanewise (\<lambda>a x. if x < a then x else a),
      empty_value = empty_values_minimum T\<rparr>"

section \<open>Kernels and the linear evaluator\<close>

text \<open>
  A kernel has a scalar and a pack overload.  Its first argument is the running value
  \<open>a\<close>, taken by reference and updated; the argument pack \<^verbatim>\<open>x...\<close> is the list of the
  input values, and a kernel of one input takes the head of that list.
\<close>

record 'a kernel =
  scalar_op :: "'a \<Rightarrow> 'a list \<Rightarrow> 'a"
  pack_op :: "'a pack \<Rightarrow> 'a pack list \<Rightarrow> 'a pack"

text \<open>A transform function \<^verbatim>\<open>TFun\<close>, with the same two overloads.\<close>

record 'a tfun =
  tf_scalar :: "'a list \<Rightarrow> 'a"
  tf_pack :: "'a pack list \<Rightarrow> 'a pack"

text \<open>\<^verbatim>\<open>_fold_kernel\<close>, lines 25-47: both overloads call \<^verbatim>\<open>rfun.fold(a, x)\<close>.\<close>

definition fold_kernel :: "'a folder \<Rightarrow> 'a kernel" where
  "fold_kernel rfun =
     \<lparr>scalar_op = (\<lambda>a xs. fold_scalar rfun a (hd xs)),
      pack_op = (\<lambda>a xs. fold_pack rfun a (hd xs))\<rparr>"

text \<open>\<^verbatim>\<open>_foldx_kernel\<close>, lines 50-75: both overloads call \<^verbatim>\<open>rfun.fold(a, tfun(x...))\<close>.\<close>

definition foldx_kernel :: "'a folder \<Rightarrow> 'a tfun \<Rightarrow> 'a kernel" where
  "foldx_kernel rfun tfun =
     \<lparr>scalar_op = (\<lambda>a xs. fold_scalar rfun a (tf_scalar tfun xs)),
      pack_op = (\<lambda>a xs. fold_pack rfun a (tf_pack tfun xs))\<rparr>"

text \<open>
  Modelled from the spec: \<^verbatim>\<open>copy_kernel\<close> and \<^verbatim>\<open>map_kernel\<close>
  (\<^verbatim>\<open>light_mat/mateval/common_kernels.h\<close>) are not among the sources.  Section 4.5 of the
  spec: the output vector is initialised "by copying column 0 (or transform(column 0) in
  the transformed variant)".  The copy kernel is called with the source first and the
  destination second; the embedding names the destination first, as for every kernel.
\<close>

definition copy_kernel :: "'a kernel" where
  "copy_kernel = \<lparr>scalar_op = (\<lambda>a xs. hd xs), pack_op = (\<lambda>a xs. hd xs)\<rparr>"

definition map_kernel :: "'a tfun \<Rightarrow> 'a kernel" where
  "map_kernel tfun = \<lparr>scalar_op = (\<lambda>a xs. tf_scalar tfun xs), pack_op = (\<lambda>a xs. tf_pack tfun xs)\<rparr>"

text \<open>
  Modelled from the spec: \<^verbatim>\<open>internal::linear_ewise_eval\<close> is not among the sources.
  Section 6 of the spec: "a primitive that, given a dimension, an access tag, a combining
  kernel, and one or more column readers/writers, applies the kernel element-by-element
  (or pack-by-pack with scalar tail) across the dimension".  In every call of the header
  the one writable accessor is the accessor \<open>a\<close> on the output vector; the embedding
  threads that vector as the state and takes the read-only accessors as a list.
\<close>

definition scalar_step :: "'a kernel \<Rightarrow> 'a accessor list \<Rightarrow> nat \<Rightarrow> 'a list \<Rightarrow> error + 'a list" where
  "scalar_step ker ins i dmat =
     (case scalar VecRef dmat i of
        Inl e \<Rightarrow> Inl e
      | Inr a \<Rightarrow>
          (case sequence_err (map (\<lambda>acc. scalar acc dmat i) ins) of
             Inl e \<Rightarrow> Inl e
           | Inr xs \<Rightarrow> store dmat i (scalar_op ker a xs)))"

definition pack_step ::
  "nat \<Rightarrow> 'a kernel \<Rightarrow> 'a accessor list \<Rightarrow> nat \<Rightarrow> 'a list \<Rightarrow> error + 'a list" where
  "pack_step w ker ins i dmat =
     (case pack w VecRef dmat i of
        Inl e \<Rightarrow> Inl e
      | Inr a \<Rightarrow>
          (case sequence_err (map (\<lambda>acc. pack w acc dmat i) ins) of
             Inl e \<Rightarrow> Inl e
           | Inr xs \<Rightarrow> store_pack w dmat i (pack_op ker a xs)))"

fun linear_ewise_eval ::
  "nat \<Rightarrow> atag \<Rightarrow> 'a kernel \<Rightarrow> 'a accessor list \<Rightarrow> 'a list \<Rightarrow> error + 'a list" where
  "linear_ewise_eval len Scalar ker ins dmat = for_each [0..<len] (scalar_step ker ins) dmat"
| "linear_ewise_eval len (Simd w) ker ins dmat =
     (case for_each (map (\<lambda>p. p * w) [0..<len div w]) (pack_step w ker ins) dmat of
        Inl e \<Rightarrow> Inl e
      | Inr d \<Rightarrow> for_each [(len div w) * w..<len] (scalar_step ker ins) d)"

section \<open>Colwise reduction\<close>

text \<open>
  Modelled from the spec: \<^verbatim>\<open>vecfold_kernel<Folder, U>::apply\<close> and
  \<^verbatim>\<open>vecfoldf_kernel<Folder, TFun, U>::apply\<close>, the kernels that \<^verbatim>\<open>fold(folder, u)\<close> and
  \<^verbatim>\<open>foldf(folder, tfun, u)\<close> return (\<^verbatim>\<open>light_mat/mateval/mat_fold.h\<close>), are not among the
  sources.  Section 4.5 of the spec: "run the fold kernel over all rows of column j,
  using whatever access tag the dispatch policy selected (vectorized inner loop over rows
  when admissible, with a scalar tail for rows mod width \<noteq> 0)", "Degenerate case
  (rows == 0): result is the folder's empty value"; section 4.2: a SIMD tag processes
  "width(K) elements at a time, with a scalar remainder loop for the final partial group".

  Under the scalar tag the kernel folds the \<open>len\<close> elements in index order.  Under a SIMD
  tag of width \<open>w\<close> it folds the \<open>len div w\<close> full packs, lane by lane, into one
  accumulator pack, then folds the lanes of that pack, in lane order, into the scalar
  result, then folds the remaining \<open>len mod w\<close> elements into the result one at a time.
  Every accumulator starts as the folder's empty value: the scalar result and each lane
  of the accumulator pack.  When there is no full pack, the vectorized loop and the
  combination of the lanes are skipped, so with no element at all the result is the
  empty value itself.  The spec fixes neither the start of the accumulators nor the
  order in which the lanes are combined; both are choices of this model.

  The transformed kernel does the same with the transform of the values that its readers
  give at each index: \<^verbatim>\<open>tfun\<close> on scalars in the scalar loops, \<^verbatim>\<open>tfun\<close> on packs in the
  vectorized loop.
\<close>

definition vecfold_combine :: "'a folder \<Rightarrow> nat \<Rightarrow> 'a pack list \<Rightarrow> 'a list \<Rightarrow> 'a" where
  "vecfold_combine folder w ps xs =
     (let e = empty_value folder;
          r = (if ps = [] then e
               else foldl (fold_scalar folder) e
                      (foldl (fold_pack folder) (replicate w e) ps))
      in foldl (fold_scalar folder) r xs)"

fun vecfold_run ::
  "'a folder \<Rightarrow> atag \<Rightarrow> nat \<Rightarrow> (nat \<Rightarrow> error + 'a) \<Rightarrow> (nat \<Rightarrow> nat \<Rightarrow> error + 'a pack)
     \<Rightarrow> error + 'a" where
  "vecfold_run folder Scalar len get_scalar get_pack =
     (case sequence_err (map get_scalar [0..<len]) of
        Inl e \<Rightarrow> Inl e
      | Inr xs \<Rightarrow> Inr (foldl (fold_scalar folder) (empty_value folder) xs))"
| "vecfold_run folder (Simd w) len get_scalar get_pack =
     (case sequence_err (map (\<lambda>p. get_pack w (p * w)) [0..<len div w]) of
        Inl e \<Rightarrow> Inl e
      | Inr ps \<Rightarrow>
          (case sequence_err (map get_scalar [(len div w) * w..<len]) of
             Inl e \<Rightarrow> Inl e
           | Inr xs \<Rightarrow> Inr (vecfold_combine folder w ps xs)))"

definition vecfold_kernel_apply ::
  "'a folder \<Rightarrow> atag \<Rightarrow> nat \<Rightarrow> 'a accessor \<Rightarrow> error + 'a" where
  "vecfold_kernel_apply folder u len rd =
     vecfold_run folder u len (\<lambda>i. scalar rd [] i) (\<lambda>w i. pack w rd [] i)"

definition vecfoldf_kernel_apply ::
  "'a folder \<Rightarrow> 'a tfun \<Rightarrow> atag \<Rightarrow> nat \<Rightarrow> 'a accessor list \<Rightarrow> error + 'a" where
  "vecfoldf_kernel_apply folder tfun u len rds =
     vecfold_run folder u len
       (\<lambda>i. case sequence_err (map (\<lambda>rd. scalar rd [] i) rds) of
               Inl e \<Rightarrow> Inl e
             | Inr xs \<Rightarrow> Inr (tf_scalar tfun xs))
       (\<lambda>w i. case sequence_err (map (\<lambda>rd. pack w rd [] i) rds) of
                 Inl e \<Rightarrow> Inl e
               | Inr ps \<Rightarrow> Inr (tf_pack tfun ps))"

text \<open>
  Modelled from the spec: \<^verbatim>\<open>math::rcp\<close> and the in-place scaling \<^verbatim>\<open>dmat *= c\<close> are not
  among the sources.  Section 4.5: "multiply the entire output vector by 1 / row_count".
\<close>

definition rcp :: "'a::inverse value_type \<Rightarrow> 'a \<Rightarrow> 'a" where
  "rcp T x = cast T 1 / x"

definition mul_ip :: "'a::times list \<Rightarrow> 'a \<Rightarrow> 'a list" where
  "mul_ip dmat c = map (\<lambda>x. x * c) dmat"

text \<open>\<^verbatim>\<open>colwise_fold_impl\<close>, lines 166-179, and \<^verbatim>\<open>colwise_foldx_impl\<close>, lines 181-194.\<close>

definition colwise_fold_impl ::
  "matrix_shape \<Rightarrow> atag \<Rightarrow> 'a folder \<Rightarrow> 'a list \<Rightarrow> 'a multicol_reader \<Rightarrow> error + 'a list" where
  "colwise_fold_impl sh u folder dmat rd =
     (let col_dim = nrows sh; n = ncolumns sh in
      for_each [0..<n]
        (\<lambda>j d. case vecfold_kernel_apply folder u col_dim (col rd j) of
                  Inl e \<Rightarrow> Inl e
                | Inr v \<Rightarrow> store d j v)
        dmat)"

definition colwise_foldx_impl ::
  "matrix_shape \<Rightarrow> atag \<Rightarrow> 'a folder \<Rightarrow> 'a list \<Rightarrow> 'a tfun \<Rightarrow> 'a multicol_reader list
     \<Rightarrow> error + 'a list" where
  "colwise_foldx_impl sh u folder dmat tfun rds =
     (let col_dim = nrows sh; n = ncolumns sh in
      for_each [0..<n]
        (\<lambda>j d. case vecfoldf_kernel_apply folder tfun u col_dim (map (\<lambda>rd. col rd j) rds) of
                  Inl e \<Rightarrow> Inl e
                | Inr v \<Rightarrow> store d j v)
        dmat)"

text \<open>
  The drivers \<^verbatim>\<open>colwise_sum_\<close>, \<^verbatim>\<open>colwise_mean_\<close>, \<^verbatim>\<open>colwise_maximum_\<close> and
  \<^verbatim>\<open>colwise_minimum_\<close> of namespace \<^verbatim>\<open>internal\<close>, lines 197-226.  Their tag is
  \<^verbatim>\<open>atags::simd<Kind>\<close>; \<open>w\<close> is the pack width of that kind.
\<close>

definition internal_colwise_sum ::
  "'a::plus value_type \<Rightarrow> matrix_shape \<Rightarrow> nat \<Rightarrow> 'a list \<Rightarrow> 'a dense_matrix \<Rightarrow> error + 'a list" where
  "internal_colwise_sum T sh w dmat wrap =
     colwise_fold_impl sh (Simd w) (sum_folder T) dmat (make_multicol_accessor (Simd w) wrap)"

definition internal_colwise_mean ::
  "'a::{plus,times,inverse} value_type \<Rightarrow> matrix_shape \<Rightarrow> nat \<Rightarrow> 'a list \<Rightarrow> 'a dense_matrix
     \<Rightarrow> error + 'a list" where
  "internal_colwise_mean T sh w dmat wrap =
     (let m = nrows sh in
      case colwise_fold_impl sh (Simd w) (sum_folder T) dmat (make_multicol_accessor (Simd w) wrap) of
        Inl e \<Rightarrow> Inl e
      | Inr d \<Rightarrow> Inr (mul_ip d (rcp T (cast T m))))"

definition internal_colwise_maximum ::
  "'a::{ord,uminus} value_type \<Rightarrow> matrix_shape \<Rightarrow> nat \<Rightarrow> 'a list \<Rightarrow> 'a dense_matrix
     \<Rightarrow> error + 'a list" where
  "internal_colwise_maximum T sh w dmat wrap =
     colwise_fold_impl sh (Simd w) (maximum_folder T) dmat (make_multicol_accessor (Simd w) wrap)"

definition internal_colwise_minimum ::
  "'a::ord value_type \<Rightarrow> matrix_shape \<Rightarrow> nat \<Rightarrow> 'a list \<Rightarrow> 'a dense_matrix \<Rightarrow> error + 'a list" where
  "internal_colwise_minimum T sh w dmat wrap =
     colwise_fold_impl sh (Simd w) (minimum_folder T) dmat (make_multicol_accessor (Simd w) wrap)"

text \<open>The transformed drivers \<^verbatim>\<open>colwise_sumx_\<close>, ..., lines 229-262.\<close>

definition internal_colwise_sumx ::
  "'a::plus value_type \<Rightarrow> matrix_shape \<Rightarrow> nat \<Rightarrow> 'a list \<Rightarrow> 'a tfun \<Rightarrow> 'a dense_matrix list
     \<Rightarrow> error + 'a list" where
  "internal_colwise_sumx T sh w dmat tfun wraps =
     colwise_foldx_impl sh (Simd w) (sum_folder T) dmat tfun
       (map (make_multicol_accessor (Simd w)) wraps)"

definition internal_colwise_meanx ::
  "'a::{plus,times,inverse} value_type \<Rightarrow> matrix_shape \<Rightarrow> nat \<Rightarrow> 'a list \<Rightarrow> 'a tfun
     \<Rightarrow> 'a dense_matrix list \<Rightarrow> error + 'a list" where
  "internal_colwise_meanx T sh w dmat tfun wraps =
     (let m = nrows sh in
      case colwise_foldx_impl sh (Simd w) (sum_folder T) dmat tfun
             (map (make_multicol_accessor (Simd w)) wraps) of
        Inl e \<Rightarrow> Inl e
      | Inr d \<Rightarrow> Inr (mul_ip d (rcp T (cast T m))))"

definition internal_colwise_maximumx ::
  "'a::{ord,uminus} value_type \<Rightarrow> matrix_shape \<Rightarrow> nat \<Rightarrow> 'a list \<Rightarrow> 'a tfun
     \<Rightarrow> 'a dense_matrix list \<Rightarrow> error + 'a list" where
  "internal_colwise_maximumx T sh w dmat tfun wraps =
     colwise_foldx_impl sh (Simd w) (maximum_folder T) dmat tfun
       (map (make_multicol_accessor (Simd w)) wraps)"

definition internal_colwise_minimumx ::
  "'a::ord value_type \<Rightarrow> matrix_shape \<Rightarrow> nat \<Rightarrow> 'a list \<Rightarrow> 'a tfun \<Rightarrow> 'a dense_matrix list
     \<Rightarrow> error + 'a list" where
  "internal_colwise_minimumx T sh w dmat tfun wraps =
     colwise_foldx_impl sh (Simd w) (minimum_folder T) dmat tfun
       (map (make_multicol_accessor (Simd w)) wraps)"

section \<open>Rowwise reduction\<close>

text \<open>\<^verbatim>\<open>rowwise_fold_impl\<close>, lines 271-288, and \<^verbatim>\<open>rowwise_foldx_impl\<close>, lines 290-306.\<close>

definition rowwise_fold_impl ::
  "matrix_shape \<Rightarrow> atag \<Rightarrow> 'a folder \<Rightarrow> 'a list \<Rightarrow> 'a multicol_reader \<Rightarrow> error + 'a list" where
  "rowwise_fold_impl sh u rfun dmat rd =
     (let col_dim = nrows sh; n = ncolumns sh in
      case linear_ewise_eval col_dim u copy_kernel [col rd 0] dmat of
        Inl e \<Rightarrow> Inl e
      | Inr d0 \<Rightarrow>
          (let fker = fold_kernel rfun in
           for_each [1..<n] (\<lambda>j d. linear_ewise_eval col_dim u fker [col rd j] d) d0))"

definition rowwise_foldx_impl ::
  "matrix_shape \<Rightarrow> atag \<Rightarrow> 'a folder \<Rightarrow> 'a list \<Rightarrow> 'a tfun \<Rightarrow> 'a multicol_reader list
     \<Rightarrow> error + 'a list" where
  "rowwise_foldx_impl sh u rfun dmat tfun rds =
     (let col_dim = nrows sh; n = ncolumns sh in
      case linear_ewise_eval col_dim u (map_kernel tfun) (map (\<lambda>rd. col rd 0) rds) dmat of
        Inl e \<Rightarrow> Inl e
      | Inr d0 \<Rightarrow>
          (let fker = foldx_kernel rfun tfun in
           for_each [1..<n]
             (\<lambda>j d. linear_ewise_eval col_dim u fker (map (\<lambda>rd. col rd j) rds) d) d0))"

text \<open>
  Modelled from the spec: \<^verbatim>\<open>math::mul_fun\<close> and the map expression
  \<^verbatim>\<open>map(fun, tag)(dim, out, in...)\<close> are not among the sources.  Section 4.5: "scale the
  entire output vector by 1 / column_count using an element-wise multiply against a
  broadcast scalar".  The output vector is both the destination and the first input.
\<close>

definition mul_fun :: "'a::times tfun" where
  "mul_fun =
     \<lparr>tf_scalar = (\<lambda>xs. hd xs * hd (tl xs)),
      tf_pack = (\<lambda>xs. lanewise (\<lambda>x y. x * y) (hd xs) (hd (tl xs)))\<rparr>"

definition map_apply ::
  "'a tfun \<Rightarrow> atag \<Rightarrow> nat \<Rightarrow> 'a accessor list \<Rightarrow> 'a list \<Rightarrow> error + 'a list" where
  "map_apply f u len ins dmat = linear_ewise_eval len u (map_kernel f) ins dmat"

text \<open>The drivers \<^verbatim>\<open>rowwise_sum_\<close>, ..., \<^verbatim>\<open>rowwise_minimum_\<close>, lines 309-339.\<close>

definition internal_rowwise_sum ::
  "'a::plus value_type \<Rightarrow> matrix_shape \<Rightarrow> nat \<Rightarrow> 'a list \<Rightarrow> 'a dense_matrix \<Rightarrow> error + 'a list" where
  "internal_rowwise_sum T sh w dmat wrap =
     rowwise_fold_impl sh (Simd w) (sum_folder T) dmat (make_multicol_accessor (Simd w) wrap)"

definition internal_rowwise_mean ::
  "'a::{plus,times,inverse} value_type \<Rightarrow> matrix_shape \<Rightarrow> nat \<Rightarrow> 'a list \<Rightarrow> 'a dense_matrix
     \<Rightarrow> error + 'a list" where
  "internal_rowwise_mean T sh w dmat wrap =
     (case rowwise_fold_impl sh (Simd w) (sum_folder T) dmat (make_multicol_accessor (Simd w) wrap) of
        Inl e \<Rightarrow> Inl e
      | Inr d \<Rightarrow>
          (let c = cast T 1 / cast T (ncolumns sh); dim' = nrows sh in
           map_apply mul_fun (Simd w) dim' [VecRef, Single c] d))"

definition internal_rowwise_maximum ::
  "'a::{ord,uminus} value_type \<Rightarrow> matrix_shape \<Rightarrow> nat \<Rightarrow> 'a list \<Rightarrow> 'a dense_matrix
     \<Rightarrow> error + 'a list" where
  "internal_rowwise_maximum T sh w dmat wrap =
     rowwise_fold_impl sh (Simd w) (maximum_folder T) dmat (make_multicol_accessor (Simd w) wrap)"

definition internal_rowwise_minimum ::
  "'a::ord value_type \<Rightarrow> matrix_shape \<Rightarrow> nat \<Rightarrow> 'a list \<Rightarrow> 'a dense_matrix \<Rightarrow> error + 'a list" where
  "internal_rowwise_minimum T sh w dmat wrap =
     rowwise_fold_impl sh (Simd w) (minimum_folder T) dmat (make_multicol_accessor (Simd w) wrap)"

text \<open>The transformed drivers \<^verbatim>\<open>rowwise_sumx_\<close>, ..., lines 342-376.\<close>

definition internal_rowwise_sumx ::
  "'a::plus value_type \<Rightarrow> matrix_shape \<Rightarrow> nat \<Rightarrow> 'a list \<Rightarrow> 'a tfun \<Rightarrow> 'a dense_matrix list
     \<Rightarrow> error + 'a list" where
  "internal_rowwise_sumx T sh w dmat tfun wraps =
     rowwise_foldx_impl sh (Simd w) (sum_folder T) dmat tfun
       (map (make_multicol_accessor (Simd w)) wraps)"

definition internal_rowwise_meanx ::
  "'a::{plus,times,inverse} value_type \<Rightarrow> matrix_shape \<Rightarrow> nat \<Rightarrow> 'a list \<Rightarrow> 'a tfun
     \<Rightarrow> 'a dense_matrix list \<Rightarrow> error + 'a list" where
  "internal_rowwise_meanx T sh w dmat tfun wraps =
     (case rowwise_foldx_impl sh (Simd w) (sum_folder T) dmat tfun
             (map (make_multicol_accessor (Simd w)) wraps) of
        Inl e \<Rightarrow> Inl e
      | Inr d \<Rightarrow>
          (let c = cast T 1 / cast T (ncolumns sh); dim' = nrows sh in
           map_apply mul_fun (Simd w) dim' [VecRef, Single c] d))"

definition internal_rowwise_maximumx ::
  "'a::{ord,uminus} value_type \<Rightarrow> matrix_shape \<Rightarrow> nat \<Rightarrow> 'a list \<Rightarrow> 'a tfun
     \<Rightarrow> 'a dense_matrix list \<Rightarrow> error + 'a list" where
  "internal_rowwise_maximumx T sh w dmat tfun wraps =
     rowwise_foldx_impl sh (Simd w) (maximum_folder T) dmat tfun
       (map (make_multicol_accessor (Simd w)) wraps)"

definition internal_rowwise_minimumx ::
  "'a::ord value_type \<Rightarrow> matrix_shape \<Rightarrow> nat \<Rightarrow> 'a list \<Rightarrow> 'a tfun \<Rightarrow> 'a dense_matrix list
     \<Rightarrow> error + 'a list" where
  "internal_rowwise_minimumx T sh w dmat tfun wraps =
     rowwise_foldx_impl sh (Simd w) (minimum_folder T) dmat tfun
       (map (make_multicol_accessor (Simd w)) wraps)"

section \<open>Reference folds\<close>

text \<open>
  The naive sequential fold the rowwise drivers are compared with.  \<open>entry A i j\<close> is the
  element in row \<open>i\<close> and column \<open>j\<close> of a column-major operand.  The fold of a row starts
  from its element in column 0.
\<close>

definition entry :: "'a dense_matrix \<Rightarrow> nat \<Rightarrow> nat \<Rightarrow> 'a" where
  "entry A i j = elems A ! (j * nrows (shape A) + i)"

definition column :: "'a dense_matrix \<Rightarrow> nat \<Rightarrow> 'a list" where
  "column A j = map (\<lambda>i. entry A i j) [0..<nrows (shape A)]"

definition naive_row_fold :: "'a folder \<Rightarrow> 'a dense_matrix \<Rightarrow> nat \<Rightarrow> 'a" where
  "naive_row_fold folder A i =
     foldl (fold_scalar folder) (entry A i 0)
       (map (\<lambda>j. entry A i j) [1..<ncolumns (shape A)])"

text \<open>
  The rowwise algorithm in the words of section 4.5 of the spec: "initialize the output
  vector by copying column 0 ..., then for each subsequent column j \<ge> 1, combine column j
  element-wise into the running output vector using the fold kernel".
\<close>

definition combine_column :: "'a folder \<Rightarrow> 'a dense_matrix \<Rightarrow> 'a list \<Rightarrow> nat \<Rightarrow> 'a list" where
  "combine_column folder A acc j = lanewise (fold_scalar folder) acc (column A j)"

definition rowwise_accumulate :: "'a folder \<Rightarrow> 'a dense_matrix \<Rightarrow> 'a list" where
  "rowwise_accumulate folder A =
     foldl (combine_column folder A) (column A 0) [1..<ncolumns (shape A)]"

text \<open>The identity transform of one operand.\<close>

definition identity_tfun :: "'a tfun" where
  "identity_tfun = \<lparr>tf_scalar = (\<lambda>xs. hd xs), tf_pack = (\<lambda>xs. hd xs)\<rparr>"

section \<open>Vector packs\<close>

text \<open>
  Modelled from the spec: \<^verbatim>\<open>simd_pack<T, Kind>\<close> (\<^verbatim>\<open>light_mat/simd/sse_packs.h\<close>) is not
  among the sources; \<^verbatim>\<open>tests/simd/test_sse_packs.cpp\<close> exercises it.  Section 4.1 of the
  spec: \<^verbatim>\<open>load_a\<close> and \<^verbatim>\<open>load_u\<close> "read exactly width contiguous elements", the first
  "from an address asserted aligned to the pack's natural alignment"; \<^verbatim>\<open>load_part\<close> and
  \<^verbatim>\<open>store_part\<close> "load or store only the first count lanes (0 < count < width); lanes
  beyond count are defined as zero on load and left untouched in memory on store.
  count == width must behave identically to the full load/store"; \<^verbatim>\<open>store_a\<close> and
  \<^verbatim>\<open>store_u\<close> are the "inverse of load, same alignment contract".

  Memory is a list of elements whose first element lies at an aligned address, a
  pointer is an index into it, and a pack of width \<open>w\<close> is the list of its \<open>w\<close> lanes.
  The natural alignment of an SSE pack is its own size, \<open>w\<close> elements.
\<close>

definition load_u :: "nat \<Rightarrow> 'a list \<Rightarrow> nat \<Rightarrow> error + 'a pack" where
  "load_u w mem p =
     (if p + w \<le> length mem then Inr (take w (drop p mem)) else Inl (OutOfRange (length mem)))"

definition load_a :: "nat \<Rightarrow> 'a list \<Rightarrow> nat \<Rightarrow> error + 'a pack" where
  "load_a w mem p = (if p mod w = 0 then load_u w mem p else Inl (Misaligned p))"

definition load_part :: "nat \<Rightarrow> nat \<Rightarrow> 'a::zero list \<Rightarrow> nat \<Rightarrow> error + 'a pack" where
  "load_part w k mem p =
     (if k = 0 \<or> w < k then Inl (BadCount k)
      else if p + k \<le> length mem then Inr (take k (drop p mem) @ replicate (w - k) 0)
      else Inl (OutOfRange (length mem)))"

definition store_u :: "nat \<Rightarrow> 'a pack \<Rightarrow> 'a list \<Rightarrow> nat \<Rightarrow> error + 'a list" where
  "store_u w pk mem p =
     (if p + w \<le> length mem then Inr (take p mem @ take w pk @ drop (p + w) mem)
      else Inl (OutOfRange (length mem)))"

definition store_a :: "nat \<Rightarrow> 'a pack \<Rightarrow> 'a list \<Rightarrow> nat \<Rightarrow> error + 'a list" where
  "store_a w pk mem p = (if p mod w = 0 then store_u w pk mem p else Inl (Misaligned p))"

definition store_part :: "nat \<Rightarrow> nat \<Rightarrow> 'a pack \<Rightarrow> 'a list \<Rightarrow> nat \<Rightarrow> error + 'a list" where
  "store_part w k pk mem p =
     (if k = 0 \<or> w < k then Inl (BadCount k)
      else if p + k \<le> length mem then Inr (take p mem @ take k pk @ drop (p + k) mem)
      else Inl (OutOfRange (length mem)))"

section \<open>Element-wise addition\<close>

text \<open>
  Modelled from the spec: the operators \<^verbatim>\<open>A + B\<close>, \<^verbatim>\<open>A + c\<close>, \<^verbatim>\<open>A += B\<close> and \<^verbatim>\<open>A += c\<close>
  on dense matrices (\<^verbatim>\<open>light_mat/matexpr/matrix_arith.h\<close>) are not among the sources;
  \<^verbatim>\<open>tests/test_mat_arith.cpp\<close> exercises them.  Section 1 of the spec: the operators
  "merely compose kernels defined here"; section 7: two operands with disagreeing row
  or column counts fail fast.  Each operator runs the linear evaluator with the map
  kernel of \<^verbatim>\<open>add_fun\<close>.  The sum \<^verbatim>\<open>A + B\<close> is evaluated into a fresh matrix, whose
  buffer holds \<open>init\<close> before; the in-place update \<^verbatim>\<open>A += B\<close> evaluates into the buffer
  of \<open>A\<close>, which is also its first input.
\<close>

definition add_fun :: "'a::plus tfun" where
  "add_fun =
     \<lparr>tf_scalar = (\<lambda>xs. hd xs + hd (tl xs)),
      tf_pack = (\<lambda>xs. lanewise (\<lambda>x y. x + y) (hd xs) (hd (tl xs)))\<rparr>"

definition mat_add ::
  "atag \<Rightarrow> 'a list \<Rightarrow> 'a::plus dense_matrix \<Rightarrow> 'a dense_matrix \<Rightarrow> error + 'a dense_matrix" where
  "mat_add u init A B =
     (if shape A \<noteq> shape B then Inl ShapeMismatch
      else case map_apply add_fun u (nelems (shape A))
                  [ColReader (elems A) 0, ColReader (elems B) 0] init of
             Inl e \<Rightarrow> Inl e
           | Inr r \<Rightarrow> Inr \<lparr>shape = shape A, elems = r\<rparr>)"

definition mat_add_scalar ::
  "atag \<Rightarrow> 'a list \<Rightarrow> 'a::plus dense_matrix \<Rightarrow> 'a \<Rightarrow> error + 'a dense_matrix" where
  "mat_add_scalar u init A c =
     (case map_apply add_fun u (nelems (shape A)) [ColReader (elems A) 0, Single c] init of
        Inl e \<Rightarrow> Inl e
      | Inr r \<Rightarrow> Inr \<lparr>shape = shape A, elems = r\<rparr>)"

definition mat_add_ip ::
  "atag \<Rightarrow> 'a::plus dense_matrix \<Rightarrow> 'a dense_matrix \<Rightarrow> error + 'a dense_matrix" where
  "mat_add_ip u A B =
     (if shape A \<noteq> shape B then Inl ShapeMismatch
      else case map_apply add_fun u (nelems (shape A))
                  [VecRef, ColReader (elems B) 0] (elems A) of
             Inl e \<Rightarrow> Inl e
           | Inr r \<Rightarrow> Inr \<lparr>shape = shape A, elems = r\<rparr>)"

definition mat_add_scalar_ip ::
  "atag \<Rightarrow> 'a::plus dense_matrix \<Rightarrow> 'a \<Rightarrow> error + 'a dense_matrix" where
  "mat_add_scalar_ip u A c =
     (case map_apply add_fun u (nelems (shape A)) [VecRef, Single c] (elems A) of
        Inl e \<Rightarrow> Inl e
      | Inr r \<Rightarrow> Inr \<lparr>shape = shape A, elems = r\<rparr>)"

text \<open>
  The test case \<^verbatim>\<open>MN_CASE( mat_arith, add_ip )\<close>, lines 85-116 of
  \<^verbatim>\<open>tests/test_mat_arith.cpp\<close>: the operands, the ground truth computed by the test's own
  loops, and the two assertions.
\<close>

definition test_operand_A :: "'a value_type \<Rightarrow> nat \<Rightarrow> nat \<Rightarrow> 'a dense_matrix" where
  "test_operand_A T m n =
     \<lparr>shape = \<lparr>nrows = m, ncolumns = n\<rparr>, elems = map (\<lambda>i. cast T (i + 1)) [0..<m * n]\<rparr>"

definition test_operand_B :: "'a value_type \<Rightarrow> nat \<Rightarrow> nat \<Rightarrow> 'a dense_matrix" where
  "test_operand_B T m n =
     \<lparr>shape = \<lparr>nrows = m, ncolumns = n\<rparr>, elems = map (\<lambda>i. cast T (2 * i + 3)) [0..<m * n]\<rparr>"

definition mat_arith_add_ip :: "'a::plus value_type \<Rightarrow> atag \<Rightarrow> nat \<Rightarrow> nat \<Rightarrow> bool" where
  "mat_arith_add_ip T u m n =
     (let A = test_operand_A T m n;
          B = test_operand_B T m n;
          c = cast T 7;
          AB_r = \<lparr>shape = \<lparr>nrows = m, ncolumns = n\<rparr>,
                  elems = map (\<lambda>i. elems A ! i + elems B ! i) [0..<m * n]\<rparr>;
          AC_r = \<lparr>shape = \<lparr>nrows = m, ncolumns = n\<rparr>,
                  elems = map (\<lambda>i. elems A ! i + c) [0..<m * n]\<rparr>
      in mat_add_ip u A B = Inr AB_r \<and> mat_add_scalar_ip u A c = Inr AC_r)"

section \<open>A concrete value type\<close>

text \<open>
  The values of an IEEE 754 format without rounding and without a signed zero: the
  rationals with the two infinities and NaN.  The instances of the theorems below are
  evaluated on it.
\<close>

datatype fpval = NaN | NInf | Fin rat | PInf

instantiation fpval :: "{zero, plus, times, divide, uminus, ord}"
begin

definition zero_fpval :: fpval where
  "zero_fpval = Fin 0"

fun plus_fpval :: "fpval \<Rightarrow> fpval \<Rightarrow> fpval" where
  "plus_fpval NaN y = NaN"
| "plus_fpval x NaN = NaN"
| "plus_fpval (Fin a) (Fin b) = Fin (a + b)"
| "plus_fpval PInf NInf = NaN"
| "plus_fpval NInf PInf = NaN"
| "plus_fpval PInf y = PInf"
| "plus_fpval x PInf = PInf"
| "plus_fpval NInf y = NInf"
| "plus_fpval x NInf = NInf"

fun uminus_fpval :: "fpval \<Rightarrow> fpval" where
  "uminus_fpval NaN = NaN"
| "uminus_fpval NInf = PInf"
| "uminus_fpval (Fin a) = Fin (- a)"
| "uminus_fpval PInf = NInf"

fun times_fpval :: "fpval \<Rightarrow> fpval \<Rightarrow> fpval" where
  "times_fpval NaN y = NaN"
| "times_fpval x NaN = NaN"
| "times_fpval (Fin a) (Fin b) = Fin (a * b)"
| "times_fpval (Fin a) PInf = (if a = 0 then NaN else if 0 < a then PInf else NInf)"
| "times_fpval (Fin a) NInf = (if a = 0 then NaN else if 0 < a then NInf else PInf)"
| "times_fpval PInf (Fin b) = (if b = 0 then NaN else if 0 < b then PInf else NInf)"
| "times_fpval NInf (Fin b) = (if b = 0 then NaN else if 0 < b then NInf else PInf)"
| "times_fpval PInf PInf = PInf"
| "times_fpval PInf NInf = NInf"
| "times_fpval NInf PInf = NInf"
| "times_fpval NInf NInf = PInf"

fun divide_fpval :: "fpval \<Rightarrow> fpval \<Rightarrow> fpval" where
  "divide_fpval NaN y = NaN"
| "divide_fpval x NaN = NaN"
| "divide_fpval (Fin a) (Fin b) =
     (if b = 0 then (if a = 0 then NaN else if 0 < a then PInf else NInf) else Fin (a / b))"
| "divide_fpval (Fin a) y = Fin 0"
| "divide_fpval PInf (Fin b) = (if 0 \<le> b then PInf else NInf)"
| "divide_fpval NInf (Fin b) = (if 0 \<le> b then NInf else PInf)"
| "divide_fpval x y = NaN"

fun less_fpval :: "fpval \<Rightarrow> fpval \<Rightarrow> bool" where
  "less_fpval NaN y = False"
| "less_fpval x NaN = False"
| "less_fpval (Fin a) (Fin b) = (a < b)"
| "less_fpval x NInf = False"
| "less_fpval NInf y = True"
| "less_fpval PInf y = False"
| "less_fpval x PInf = True"

fun less_eq_fpval :: "fpval \<Rightarrow> fpval \<Rightarrow> bool" where
  "less_eq_fpval NaN y = False"
| "less_eq_fpval x NaN = False"
| "less_eq_fpval (Fin a) (Fin b) = (a \<le> b)"
| "less_eq_fpval NInf y = True"
| "less_eq_fpval x PInf = True"
| "less_eq_fpval x y = False"

instance ..

end

instantiation fpval :: inverse
begin

definition inverse_fpval :: "fpval \<Rightarrow> fpval" where
  "inverse_fpval x = divide (Fin 1) x"

instance ..

end

definition fp :: "fpval value_type" where
  "fp = \<lparr>cast = (\<lambda>i. Fin (of_nat i)), infinity = PInf, quiet_NaN = NaN\<rparr>"

section \<open>Functional description of the linear evaluator\<close>

text \<open>
  What an accessor yields at an index that it can read, and whether it can read the
  first \<open>len\<close> indices.
\<close>

fun peek :: "'a accessor \<Rightarrow> 'a list \<Rightarrow> nat \<Rightarrow> 'a" where
  "peek (ColReader buf base) d i = buf ! (base + i)"
| "peek VecRef d i = d ! i"
| "peek (Single c) d i = c"

fun readable :: "'a accessor \<Rightarrow> 'a list \<Rightarrow> nat \<Rightarrow> bool" where
  "readable (ColReader buf base) d len \<longleftrightarrow> len = 0 \<or> base + len \<le> length buf"
| "readable VecRef d len \<longleftrightarrow> len \<le> length d"
| "readable (Single c) d len \<longleftrightarrow> True"

text \<open>
  The value the scalar overload of a kernel leaves at index \<open>i\<close>, and the vector after
  the kernel has been applied at the indices \<open>a, ..., b - 1\<close>.
\<close>

definition new_value :: "'a kernel \<Rightarrow> 'a accessor list \<Rightarrow> 'a list \<Rightarrow> nat \<Rightarrow> 'a" where
  "new_value ker ins d i = scalar_op ker (d ! i) (map (\<lambda>acc. peek acc d i) ins)"

definition upd_range :: "'a kernel \<Rightarrow> 'a accessor list \<Rightarrow> nat \<Rightarrow> nat \<Rightarrow> 'a list \<Rightarrow> 'a list" where
  "upd_range ker ins a b d =
     map (\<lambda>k. if a \<le> k \<and> k < b then new_value ker ins d k else d ! k) [0..<length d]"

text \<open>
  A kernel of \<open>k\<close> inputs whose pack overload computes, in every lane, what its scalar
  overload computes (section 4.4 of the spec: "Both scalar and pack overloads must exist
  with identical semantics").
\<close>

definition lanewise_kernel :: "nat \<Rightarrow> nat \<Rightarrow> 'a kernel \<Rightarrow> bool" where
  "lanewise_kernel w k ker \<longleftrightarrow>
     (\<forall>a xs. length a = w \<and> length xs = k \<and> (\<forall>x\<in>set xs. length x = w) \<longrightarrow>
        pack_op ker a xs = map (\<lambda>l. scalar_op ker (a ! l) (map (\<lambda>x. x ! l) xs)) [0..<w])"

section \<open>Basic facts\<close>

lemma for_each_append:
  "for_each (xs @ ys) body s =
     (case for_each xs body s of Inl e \<Rightarrow> Inl e | Inr s' \<Rightarrow> for_each ys body s')"
  by (induction xs arbitrary: s) (auto split: sum.splits)

lemma for_each_single [simp]: "for_each [i] body s = body i s"
  by (simp split: sum.splits)

lemma for_each_snoc:
  "for_each (xs @ [i]) body s =
     (case for_each xs body s of Inl e \<Rightarrow> Inl e | Inr s' \<Rightarrow> body i s')"
  by (simp add: for_each_append split: sum.splits)

lemma sequence_err_map_Inr:
  "(\<And>x. x \<in> set xs \<Longrightarrow> g x = Inr (f x)) \<Longrightarrow> sequence_err (map g xs) = Inr (map f xs)"
  by (induction xs) auto

lemma scalar_readable:
  "readable acc d len \<Longrightarrow> i < len \<Longrightarrow> scalar acc d i = Inr (peek acc d i)"
  by (cases acc) auto

lemma readable_mono: "readable acc d len \<Longrightarrow> len' \<le> len \<Longrightarrow> readable acc d len'"
  by (cases acc) auto

lemma readable_length: "length d' = length d \<Longrightarrow> readable acc d' len = readable acc d len"
  by (cases acc) auto

lemma pack_readable:
  "readable acc d (i + w) \<Longrightarrow> pack w acc d i = Inr (map (peek acc d) [i..<i + w])"
  unfolding pack_def by (intro sequence_err_map_Inr) (simp add: scalar_readable)

lemma length_upd_range [simp]: "length (upd_range ker ins a b d) = length d"
  by (simp add: upd_range_def)

lemma nth_upd_range:
  "k < length d \<Longrightarrow>
     upd_range ker ins a b d ! k = (if a \<le> k \<and> k < b then new_value ker ins d k else d ! k)"
  by (simp add: upd_range_def)

lemma upd_range_empty [simp]: "upd_range ker ins a a d = d"
  by (rule nth_equalityI) (auto simp add: nth_upd_range)

lemma peek_cong: "d' ! k = d ! k \<Longrightarrow> peek acc d' k = peek acc d k"
  by (cases acc) auto

lemma new_value_cong:
  assumes "d' ! k = d ! k"
  shows "new_value ker ins d' k = new_value ker ins d k"
proof -
  have h: "map (\<lambda>acc. peek acc d' k) ins = map (\<lambda>acc. peek acc d k) ins"
    by (rule map_cong[OF refl]) (rule peek_cong[OF assms])
  show ?thesis unfolding new_value_def by (simp only: h assms)
qed

lemma upd_range_compose:
  assumes "a \<le> b" "b \<le> c"
  shows "upd_range ker ins b c (upd_range ker ins a b d) = upd_range ker ins a c d"
proof (rule nth_equalityI)
  show "length (upd_range ker ins b c (upd_range ker ins a b d)) = length (upd_range ker ins a c d)"
    by simp
next
  fix k assume "k < length (upd_range ker ins b c (upd_range ker ins a b d))"
  then have k: "k < length d" by simp
  show "upd_range ker ins b c (upd_range ker ins a b d) ! k = upd_range ker ins a c d ! k"
  proof (cases "b \<le> k")
    case True
    then have "upd_range ker ins a b d ! k = d ! k" using k by (simp add: nth_upd_range)
    then have "new_value ker ins (upd_range ker ins a b d) k = new_value ker ins d k"
      by (rule new_value_cong)
    then show ?thesis using k True assms by (simp add: nth_upd_range)
  next
    case False
    then show ?thesis using k assms by (simp add: nth_upd_range)
  qed
qed

lemma scalar_step_upd:
  assumes "i < length d" "\<And>acc. acc \<in> set ins \<Longrightarrow> readable acc d (Suc i)"
  shows "scalar_step ker ins i d = Inr (upd_range ker ins i (Suc i) d)"
proof -
  have "sequence_err (map (\<lambda>acc. scalar acc d i) ins) = Inr (map (\<lambda>acc. peek acc d i) ins)"
    using assms(2) by (intro sequence_err_map_Inr) (simp add: scalar_readable[where len = "Suc i"])
  moreover have "d[i := new_value ker ins d i] = upd_range ker ins i (Suc i) d"
  proof (rule nth_equalityI)
    show "length (d[i := new_value ker ins d i]) = length (upd_range ker ins i (Suc i) d)"
      by simp
  next
    fix k assume "k < length (d[i := new_value ker ins d i])"
    then have "k < length d" by simp
    then show "d[i := new_value ker ins d i] ! k = upd_range ker ins i (Suc i) d ! k"
      by (cases "k = i") (auto simp add: nth_upd_range)
  qed
  ultimately show ?thesis
    using assms(1) by (simp add: scalar_step_def store_def new_value_def)
qed

lemma for_each_scalar_step:
  assumes "a \<le> b" "b \<le> length d" "\<And>acc. acc \<in> set ins \<Longrightarrow> readable acc d b"
  shows "for_each [a..<b] (scalar_step ker ins) d = Inr (upd_range ker ins a b d)"
  using assms
proof (induction b)
  case 0
  then show ?case by simp
next
  case (Suc b)
  show ?case
  proof (cases "a = Suc b")
    case True
    then show ?thesis by simp
  next
    case False
    then have ab: "a \<le> b" using Suc.prems by simp
    have rd: "\<And>acc. acc \<in> set ins \<Longrightarrow> readable acc d b"
      using readable_mono[OF Suc.prems(3), of _ b] by simp
    have ih: "for_each [a..<b] (scalar_step ker ins) d = Inr (upd_range ker ins a b d)"
      using Suc.IH[OF ab _ rd] Suc.prems by simp
    have step: "scalar_step ker ins b (upd_range ker ins a b d) =
                  Inr (upd_range ker ins b (Suc b) (upd_range ker ins a b d))"
    proof (rule scalar_step_upd)
      show "b < length (upd_range ker ins a b d)" using Suc.prems by simp
    next
      fix acc assume "acc \<in> set ins"
      then have "readable acc d (Suc b)" by (rule Suc.prems(3))
      then show "readable acc (upd_range ker ins a b d) (Suc b)"
        by (simp add: readable_length[of "upd_range ker ins a b d" d])
    qed
    have "[a..<Suc b] = [a..<b] @ [b]" using ab by simp
    then have "for_each [a..<Suc b] (scalar_step ker ins) d =
                 scalar_step ker ins b (upd_range ker ins a b d)"
      by (simp add: for_each_snoc ih del: for_each.simps)
    also have "\<dots> = Inr (upd_range ker ins a (Suc b) d)"
      unfolding step using ab by (simp add: upd_range_compose)
    finally show ?thesis .
  qed
qed


lemma store_pack_prefix:
  assumes "v \<le> length p" "i + v \<le> length d"
  shows "for_each [0..<v] (\<lambda>l d. if l < length p then store d (i + l) (p ! l) else Inr d) d =
           Inr (map (\<lambda>k. if i \<le> k \<and> k < i + v then p ! (k - i) else d ! k) [0..<length d])"
  using assms
proof (induction v)
  case 0
  have "map (\<lambda>k. if i \<le> k \<and> k < i + 0 then p ! (k - i) else d ! k) [0..<length d] = d"
    by (rule nth_equalityI) auto
  then show ?case by simp
next
  case (Suc v)
  let ?r = "\<lambda>v. map (\<lambda>k. if i \<le> k \<and> k < i + v then p ! (k - i) else d ! k) [0..<length d]"
  have ih: "for_each [0..<v] (\<lambda>l d. if l < length p then store d (i + l) (p ! l) else Inr d) d =
              Inr (?r v)"
    using Suc by simp
  have upd: "(?r v)[i + v := p ! v] = ?r (Suc v)"
  proof (rule nth_equalityI)
    show "length ((?r v)[i + v := p ! v]) = length (?r (Suc v))" by simp
  next
    fix k assume "k < length ((?r v)[i + v := p ! v])"
    then have k: "k < length d" by simp
    show "(?r v)[i + v := p ! v] ! k = ?r (Suc v) ! k"
    proof (cases "k = i + v")
      case True
      then show ?thesis using k by simp
    next
      case False
      then show ?thesis using k by (auto simp: nth_list_update)
    qed
  qed
  have "for_each [0..<Suc v] (\<lambda>l d. if l < length p then store d (i + l) (p ! l) else Inr d) d =
          store (?r v) (i + v) (p ! v)"
    using Suc.prems by (simp add: for_each_snoc ih del: for_each.simps)
  also have "\<dots> = Inr (?r (Suc v))"
    using Suc.prems upd by (simp add: store_def)
  finally show ?case .
qed

lemma store_pack_ok:
  assumes "length p = w" "i + w \<le> length d"
  shows "store_pack w d i p =
           Inr (map (\<lambda>k. if i \<le> k \<and> k < i + w then p ! (k - i) else d ! k) [0..<length d])"
  unfolding store_pack_def using assms by (intro store_pack_prefix) simp_all

lemma pack_step_upd:
  assumes "i + w \<le> length d"
    and rd: "\<And>acc. acc \<in> set ins \<Longrightarrow> readable acc d (i + w)"
    and lw: "lanewise_kernel w (length ins) ker"
  shows "pack_step w ker ins i d = Inr (upd_range ker ins i (i + w) d)"
proof -
  let ?a = "map (peek VecRef d) [i..<i + w]"
  let ?xs = "map (\<lambda>acc. map (peek acc d) [i..<i + w]) ins"
  have a: "pack w VecRef d i = Inr ?a"
    using assms(1) by (intro pack_readable) simp
  have xs: "sequence_err (map (\<lambda>acc. pack w acc d i) ins) = Inr ?xs"
    by (intro sequence_err_map_Inr pack_readable rd)
  have "pack_op ker ?a ?xs = map (\<lambda>l. scalar_op ker (?a ! l) (map (\<lambda>x. x ! l) ?xs)) [0..<w]"
    using lw unfolding lanewise_kernel_def by simp
  also have "\<dots> = map (\<lambda>l. new_value ker ins d (i + l)) [0..<w]"
    by (rule map_cong[OF refl]) (simp add: new_value_def comp_def)
  finally have p: "pack_op ker ?a ?xs = map (\<lambda>l. new_value ker ins d (i + l)) [0..<w]" .
  have st: "store_pack w d i (map (\<lambda>l. new_value ker ins d (i + l)) [0..<w]) =
          Inr (map (\<lambda>k. if i \<le> k \<and> k < i + w
                          then map (\<lambda>l. new_value ker ins d (i + l)) [0..<w] ! (k - i) else d ! k)
                 [0..<length d])"
    using assms(1) by (intro store_pack_ok) simp_all
  have eq: "map (\<lambda>k. if i \<le> k \<and> k < i + w
                          then map (\<lambda>l. new_value ker ins d (i + l)) [0..<w] ! (k - i) else d ! k)
                 [0..<length d] = upd_range ker ins i (i + w) d"
    unfolding upd_range_def by (rule map_cong[OF refl]) auto
  show ?thesis
    unfolding pack_step_def a xs by (simp add: p st eq)
qed


lemma for_each_pack_step:
  assumes "np * w \<le> length d"
    and rd: "\<And>acc. acc \<in> set ins \<Longrightarrow> readable acc d (np * w)"
    and lw: "lanewise_kernel w (length ins) ker"
  shows "for_each (map (\<lambda>p. p * w) [0..<np]) (pack_step w ker ins) d =
           Inr (upd_range ker ins 0 (np * w) d)"
  using assms(1) rd
proof (induction np)
  case 0
  then show ?case by simp
next
  case (Suc np)
  have le: "np * w \<le> length d" using Suc.prems(1) by simp
  have rd': "\<And>acc. acc \<in> set ins \<Longrightarrow> readable acc d (np * w)"
    using readable_mono[OF Suc.prems(2), of _ "np * w"] by simp
  have ih: "for_each (map (\<lambda>p. p * w) [0..<np]) (pack_step w ker ins) d =
              Inr (upd_range ker ins 0 (np * w) d)"
    using Suc.IH[OF le rd'] by simp
  have step: "pack_step w ker ins (np * w) (upd_range ker ins 0 (np * w) d) =
                Inr (upd_range ker ins (np * w) (np * w + w) (upd_range ker ins 0 (np * w) d))"
  proof (rule pack_step_upd[OF _ _ lw])
    show "np * w + w \<le> length (upd_range ker ins 0 (np * w) d)"
      using Suc.prems(1) by (simp add: add.commute)
  next
    fix acc assume "acc \<in> set ins"
    then have "readable acc d (Suc np * w)" by (rule Suc.prems(2))
    then show "readable acc (upd_range ker ins 0 (np * w) d) (np * w + w)"
      by (simp add: readable_length[of "upd_range ker ins 0 (np * w) d" d] add.commute)
  qed
  have "map (\<lambda>p. p * w) [0..<Suc np] = map (\<lambda>p. p * w) [0..<np] @ [np * w]" by simp
  then have "for_each (map (\<lambda>p. p * w) [0..<Suc np]) (pack_step w ker ins) d =
               pack_step w ker ins (np * w) (upd_range ker ins 0 (np * w) d)"
    by (simp add: for_each_snoc ih del: for_each.simps)
  also have "\<dots> = Inr (upd_range ker ins 0 (Suc np * w) d)"
    unfolding step by (simp add: upd_range_compose add.commute)
  finally show ?case .
qed

lemma linear_ewise_eval_upd:
  assumes len: "len \<le> length d"
    and rd: "\<And>acc. acc \<in> set ins \<Longrightarrow> readable acc d len"
    and lw: "\<And>w. u = Simd w \<Longrightarrow> lanewise_kernel w (length ins) ker"
  shows "linear_ewise_eval len u ker ins d = Inr (upd_range ker ins 0 len d)"
proof (cases u)
  case Scalar
  have "for_each [0..<len] (scalar_step ker ins) d = Inr (upd_range ker ins 0 len d)"
    by (rule for_each_scalar_step[OF _ len rd]) simp_all
  then show ?thesis using Scalar by simp
next
  case (Simd w)
  let ?np = "len div w"
  let ?d1 = "upd_range ker ins 0 (?np * w) d"
  have le: "?np * w \<le> len" by simp
  have rd1: "\<And>acc. acc \<in> set ins \<Longrightarrow> readable acc d (?np * w)"
    using readable_mono[OF rd le] by simp
  have packs: "for_each (map (\<lambda>p. p * w) [0..<?np]) (pack_step w ker ins) d = Inr ?d1"
  proof (rule for_each_pack_step[OF _ rd1 lw[OF Simd]])
    show "?np * w \<le> length d" using le len by (rule order_trans)
  qed
  have tail: "for_each [?np * w..<len] (scalar_step ker ins) ?d1 =
                Inr (upd_range ker ins (?np * w) len ?d1)"
  proof (rule for_each_scalar_step[OF le])
    show "len \<le> length ?d1" using len by simp
  next
    fix acc assume "acc \<in> set ins"
    then have "readable acc d len" by (rule rd)
    then show "readable acc ?d1 len" by (simp add: readable_length[of ?d1 d])
  qed
  show ?thesis
    unfolding Simd linear_ewise_eval.simps packs using le
    by (simp add: tail upd_range_compose)
qed

lemma for_each_pure:
  assumes "\<And>j s. j \<in> set js \<Longrightarrow> P s \<Longrightarrow> body j s = Inr (g s j) \<and> P (g s j)" "P s0"
  shows "for_each js body s0 = Inr (foldl g s0 js)"
  using assms
proof (induction js arbitrary: s0)
  case Nil
  then show ?case by simp
next
  case (Cons j js)
  have "body j s0 = Inr (g s0 j)" "P (g s0 j)" using Cons.prems by simp_all
  moreover have "for_each js body (g s0 j) = Inr (foldl g (g s0 j) js)"
    using Cons.prems \<open>P (g s0 j)\<close> by (intro Cons.IH) simp_all
  ultimately show ?case by simp
qed

section \<open>The colwise drivers\<close>

lemma for_each_store:
  assumes "\<And>j. j < n \<Longrightarrow> g j = Inr (v j)" "n \<le> length d"
  shows "for_each [0..<n] (\<lambda>j d. case g j of Inl e \<Rightarrow> Inl e | Inr x \<Rightarrow> store d j x) d =
           Inr (map v [0..<n] @ drop n d)"
  using assms
proof (induction n)
  case 0
  then show ?case by simp
next
  case (Suc n)
  have "drop n d = d ! n # drop (Suc n) d"
    using Suc.prems by (simp add: Cons_nth_drop_Suc)
  then have "(map v [0..<n] @ drop n d)[n := v n] = map v [0..<n] @ v n # drop (Suc n) d"
    by (simp add: list_update_append)
  with Suc show ?case
    by (simp add: for_each_append store_def)
qed

lemma colwise_fold_impl_slots:
  assumes "\<And>j. j < ncolumns sh \<Longrightarrow>
                vecfold_kernel_apply folder u (nrows sh) (col rd j) = Inr (v j)"
    and "ncolumns sh \<le> length dmat"
  shows "colwise_fold_impl sh u folder dmat rd =
           Inr (map v [0..<ncolumns sh] @ drop (ncolumns sh) dmat)"
  unfolding colwise_fold_impl_def Let_def
  using assms by (intro for_each_store) simp_all

lemma internal_colwise_mean_scales_sum:
  "internal_colwise_mean T sh w dmat A =
     (case internal_colwise_sum T sh w dmat A of
        Inl e \<Rightarrow> Inl e
      | Inr s \<Rightarrow> Inr (map (\<lambda>x. x * (cast T 1 / cast T (nrows sh))) s))"
  unfolding internal_colwise_mean_def internal_colwise_sum_def Let_def mul_ip_def rcp_def
  by (rule refl)

lemma vecfold_kernel_apply_five:
  "vecfold_kernel_apply (sum_folder fp) (Simd 2) 5
       (ColReader [Fin 1, Fin 2, Fin 3, Fin 4, Fin 5] 0) = Inr (Fin 15)
   \<and> vecfold_kernel_apply (maximum_folder fp) (Simd 2) 0 (ColReader [] 0) = Inr NInf"
proof -
  have d: "(5::nat) div 2 = 2" "(0::nat) div 2 = 0" by simp_all
  have r: "[0..<2] = [0, Suc 0]" "[0..<0 + 2] = [0, Suc 0]" "[Suc 0 * 2..<Suc 0 * 2 + 2] = [2, 3]"
    "[2 * 2..<5] = [4::nat]" "replicate 2 x = [x, x]" for x :: fpval
    by (simp_all add: upt_rec numeral_2_eq_2)
  show ?thesis
    by (simp add: vecfold_kernel_apply_def vecfold_combine_def pack_def sum_folder_def
          maximum_folder_def empty_values_sum_def empty_values_maximum_def fp_def lanewise_def
          d r)
qed

section \<open>Rowwise accumulation\<close>

lemma length_lanewise [simp]: "length (lanewise f a x) = min (length a) (length x)"
  by (simp add: lanewise_def)

lemma nth_lanewise:
  "l < length a \<Longrightarrow> l < length x \<Longrightarrow> lanewise f a x ! l = f (a ! l) (x ! l)"
  by (simp add: lanewise_def)

lemma lanewise_eq_map:
  assumes "length a = w" "length x = w"
  shows "lanewise f a x = map (\<lambda>l. f (a ! l) (x ! l)) [0..<w]"
  by (rule nth_equalityI) (simp_all add: assms nth_lanewise)

lemma length_column [simp]: "length (column A j) = nrows (shape A)"
  by (simp add: column_def)

lemma nth_column: "i < nrows (shape A) \<Longrightarrow> column A j ! i = entry A i j"
  by (simp add: column_def)

lemma peek_col: "peek (col (make_multicol_accessor u A) j) d i = entry A i j"
  by (simp add: col_def make_multicol_accessor_def entry_def)

lemma readable_col:
  assumes "has_shape A sh" "j < ncolumns sh"
  shows "readable (col (make_multicol_accessor u A) j) d (nrows sh)"
proof -
  have "Suc j * nrows sh \<le> ncolumns sh * nrows sh"
    using assms(2) by (intro mult_le_mono1) simp
  then have "j * nrows sh + nrows sh \<le> nrows sh * ncolumns sh"
    by (simp add: mult.commute)
  then show ?thesis
    using assms(1) by (simp add: col_def make_multicol_accessor_def has_shape_def nelems_def)
qed

lemma lanewise_copy_kernel: "lanewise_kernel w (Suc k) copy_kernel"
  unfolding lanewise_kernel_def
proof (intro allI impI)
  fix a :: "'a list" and xs :: "'a list list"
  assume h: "length a = w \<and> length xs = Suc k \<and> (\<forall>x\<in>set xs. length x = w)"
  then obtain x xs' where xs: "xs = x # xs'" by (cases xs) auto
  with h have "length x = w" by simp
  then have "x = map (\<lambda>l. x ! l) [0..<w]" using map_nth[of x] by simp
  then show "pack_op copy_kernel a xs =
               map (\<lambda>l. scalar_op copy_kernel (a ! l) (map (\<lambda>x. x ! l) xs)) [0..<w]"
    by (simp add: copy_kernel_def xs)
qed

lemma lanewise_fold_kernel:
  assumes "fold_pack rfun = lanewise (fold_scalar rfun)"
  shows "lanewise_kernel w (Suc k) (fold_kernel rfun)"
  unfolding lanewise_kernel_def
proof (intro allI impI)
  fix a :: "'a list" and xs :: "'a list list"
  assume h: "length a = w \<and> length xs = Suc k \<and> (\<forall>x\<in>set xs. length x = w)"
  then obtain x xs' where xs: "xs = x # xs'" by (cases xs) auto
  with h have "length x = w" "length a = w" by simp_all
  then have "lanewise (fold_scalar rfun) a x = map (\<lambda>l. fold_scalar rfun (a ! l) (x ! l)) [0..<w]"
    by (intro lanewise_eq_map)
  then show "pack_op (fold_kernel rfun) a xs =
               map (\<lambda>l. scalar_op (fold_kernel rfun) (a ! l) (map (\<lambda>x. x ! l) xs)) [0..<w]"
    by (simp add: fold_kernel_def xs assms)
qed

lemma upd_range_copy_col:
  assumes "length d = nrows (shape A)"
  shows "upd_range copy_kernel [col (make_multicol_accessor u A) j] 0 (nrows (shape A)) d =
           column A j"
  by (rule nth_equalityI)
     (simp_all add: assms nth_upd_range nth_column new_value_def copy_kernel_def peek_col)

lemma upd_range_fold_col:
  assumes "length d = nrows (shape A)"
  shows "upd_range (fold_kernel rfun) [col (make_multicol_accessor u A) j] 0 (nrows (shape A)) d =
           combine_column rfun A d j"
  by (rule nth_equalityI)
     (simp_all add: assms nth_upd_range nth_column new_value_def fold_kernel_def peek_col
        combine_column_def nth_lanewise)

lemma rowwise_fold_impl_accumulate:
  assumes A: "has_shape A sh" and len: "length dmat = nrows sh" and n: "1 \<le> ncolumns sh"
    and lw: "fold_pack rfun = lanewise (fold_scalar rfun)"
  shows "rowwise_fold_impl sh u rfun dmat (make_multicol_accessor u' A) =
           Inr (rowwise_accumulate rfun A)"
proof -
  let ?rd = "make_multicol_accessor u' A"
  have sh: "shape A = sh" using A by (simp add: has_shape_def)
  have copy: "linear_ewise_eval (nrows sh) u copy_kernel [col ?rd 0] dmat = Inr (column A 0)"
  proof -
    have "linear_ewise_eval (nrows sh) u copy_kernel [col ?rd 0] dmat =
            Inr (upd_range copy_kernel [col ?rd 0] 0 (nrows sh) dmat)"
    proof (rule linear_ewise_eval_upd)
      show "nrows sh \<le> length dmat" using len by simp
    next
      fix acc assume "acc \<in> set [col ?rd 0]"
      then show "readable acc dmat (nrows sh)" using readable_col[OF A, of 0] n by simp
    next
      fix w assume "u = Simd w"
      show "lanewise_kernel w (length [col ?rd 0]) copy_kernel"
        using lanewise_copy_kernel[of w 0] by simp
    qed
    then show ?thesis using upd_range_copy_col[of dmat A u' 0] len sh by simp
  qed
  have step: "linear_ewise_eval (nrows sh) u (fold_kernel rfun) [col ?rd j] s =
                Inr (combine_column rfun A s j) \<and>
              length (combine_column rfun A s j) = nrows sh"
    if "j \<in> set [1..<ncolumns sh]" "length s = nrows sh" for j s
  proof -
    have j: "j < ncolumns sh" using that(1) by simp
    have "linear_ewise_eval (nrows sh) u (fold_kernel rfun) [col ?rd j] s =
            Inr (upd_range (fold_kernel rfun) [col ?rd j] 0 (nrows sh) s)"
    proof (rule linear_ewise_eval_upd)
      show "nrows sh \<le> length s" using that(2) by simp
    next
      fix acc assume "acc \<in> set [col ?rd j]"
      then show "readable acc s (nrows sh)" using readable_col[OF A j] by simp
    next
      fix w assume "u = Simd w"
      show "lanewise_kernel w (length [col ?rd j]) (fold_kernel rfun)"
        using lanewise_fold_kernel[OF lw, of w 0] by simp
    qed
    then show ?thesis
      using upd_range_fold_col[of s A rfun u' j] that(2) sh
      by (simp add: combine_column_def)
  qed
  have loop: "for_each [1..<ncolumns sh]
                (\<lambda>j d. linear_ewise_eval (nrows sh) u (fold_kernel rfun) [col ?rd j] d) (column A 0) =
              Inr (foldl (combine_column rfun A) (column A 0) [1..<ncolumns sh])"
    by (rule for_each_pure[where P = "\<lambda>s. length s = nrows sh"]) (simp_all add: step sh)
  show ?thesis
    unfolding rowwise_fold_impl_def Let_def copy
    using loop sh by (simp add: rowwise_accumulate_def)
qed

lemma nth_foldl_combine_column:
  assumes "i < nrows (shape A)" "length s = nrows (shape A)"
  shows "foldl (combine_column rfun A) s js ! i =
           foldl (fold_scalar rfun) (s ! i) (map (\<lambda>j. entry A i j) js)"
  using assms(2)
proof (induction js arbitrary: s)
  case Nil
  then show ?case by simp
next
  case (Cons j js)
  have l: "length (combine_column rfun A s j) = nrows (shape A)"
    using Cons.prems by (simp add: combine_column_def)
  have "combine_column rfun A s j ! i = fold_scalar rfun (s ! i) (entry A i j)"
    using assms(1) Cons.prems by (simp add: combine_column_def nth_lanewise nth_column)
  then show ?case using Cons.IH[OF l] by simp
qed

lemma length_foldl_combine_column:
  "length s = nrows (shape A) \<Longrightarrow> length (foldl (combine_column rfun A) s js) = nrows (shape A)"
  by (induction js arbitrary: s) (simp_all add: combine_column_def)

lemma rowwise_accumulate_naive:
  "rowwise_accumulate rfun A = map (naive_row_fold rfun A) [0..<nrows (shape A)]"
proof (rule nth_equalityI)
  show "length (rowwise_accumulate rfun A) = length (map (naive_row_fold rfun A) [0..<nrows (shape A)])"
    by (simp add: rowwise_accumulate_def length_foldl_combine_column)
next
  fix i assume "i < length (rowwise_accumulate rfun A)"
  then have i: "i < nrows (shape A)"
    by (simp add: rowwise_accumulate_def length_foldl_combine_column)
  then show "rowwise_accumulate rfun A ! i = map (naive_row_fold rfun A) [0..<nrows (shape A)] ! i"
    by (simp add: rowwise_accumulate_def naive_row_fold_def nth_foldl_combine_column nth_column)
qed

lemma lanewise_sum_folder: "fold_pack (sum_folder T) = lanewise (fold_scalar (sum_folder T))"
  by (simp add: sum_folder_def)

lemma lanewise_maximum_folder:
  "fold_pack (maximum_folder T) = lanewise (fold_scalar (maximum_folder T))"
  by (simp add: maximum_folder_def)

lemma lanewise_minimum_folder:
  "fold_pack (minimum_folder T) = lanewise (fold_scalar (minimum_folder T))"
  by (simp add: minimum_folder_def)

lemma column_single:
  assumes "has_shape A sh" "ncolumns sh = 1"
  shows "column A 0 = elems A"
proof -
  have "length (elems A) = nrows (shape A)"
    using assms by (simp add: has_shape_def nelems_def)
  then show ?thesis
    using map_nth[of "elems A"] by (simp add: column_def entry_def)
qed

section \<open>Maps of a binary function\<close>

lemma lanewise_map_kernel_binary:
  assumes "tf_scalar g = (\<lambda>xs. f (hd xs) (hd (tl xs)))"
    and "tf_pack g = (\<lambda>xs. lanewise f (hd xs) (hd (tl xs)))"
  shows "lanewise_kernel w 2 (map_kernel g)"
  unfolding lanewise_kernel_def
proof (intro allI impI)
  fix a :: "'a list" and xs :: "'a list list"
  assume h: "length a = w \<and> length xs = 2 \<and> (\<forall>x\<in>set xs. length x = w)"
  then obtain x y where xs: "xs = [x, y]"
    by (cases xs; cases "tl xs") auto
  with h have "length x = w" "length y = w" by simp_all
  then have "lanewise f x y = map (\<lambda>l. f (x ! l) (y ! l)) [0..<w]"
    by (intro lanewise_eq_map)
  then show "pack_op (map_kernel g) a xs =
               map (\<lambda>l. scalar_op (map_kernel g) (a ! l) (map (\<lambda>x. x ! l) xs)) [0..<w]"
    by (simp add: map_kernel_def xs assms)
qed

lemma map_apply_binary:
  assumes g: "tf_scalar g = (\<lambda>xs. f (hd xs) (hd (tl xs)))"
      "tf_pack g = (\<lambda>xs. lanewise f (hd xs) (hd (tl xs)))"
    and len: "length d = len"
    and rd: "readable p d len" "readable q d len"
  shows "map_apply g u len [p, q] d = Inr (map (\<lambda>i. f (peek p d i) (peek q d i)) [0..<len])"
proof -
  have "linear_ewise_eval len u (map_kernel g) [p, q] d =
          Inr (upd_range (map_kernel g) [p, q] 0 len d)"
  proof (rule linear_ewise_eval_upd)
    show "len \<le> length d" using len by simp
  next
    fix acc assume "acc \<in> set [p, q]"
    then show "readable acc d len" using rd by auto
  next
    fix w assume "u = Simd w"
    show "lanewise_kernel w (length [p, q]) (map_kernel g)"
      using lanewise_map_kernel_binary[OF g, of w] by (simp add: numeral_2_eq_2)
  qed
  moreover have "upd_range (map_kernel g) [p, q] 0 len d =
                   map (\<lambda>i. f (peek p d i) (peek q d i)) [0..<len]"
    by (rule nth_equalityI)
       (simp_all add: len nth_upd_range new_value_def map_kernel_def g)
  ultimately show ?thesis by (simp add: map_apply_def)
qed

lemma map_apply_scale:
  "map_apply mul_fun u (length s) [VecRef, Single c] s = Inr (map (\<lambda>x. x * c) s)"
proof -
  have "map_apply mul_fun u (length s) [VecRef, Single c] s =
          Inr (map (\<lambda>i. peek VecRef s i * peek (Single c) s i) [0..<length s])"
    by (rule map_apply_binary) (simp_all add: mul_fun_def)
  moreover have "map (\<lambda>i. peek VecRef s i * peek (Single c) s i) [0..<length s] =
                   map (\<lambda>x. x * c) s"
    by (rule nth_equalityI) simp_all
  ultimately show ?thesis by simp
qed

lemma length_rowwise_accumulate [simp]:
  "length (rowwise_accumulate rfun A) = nrows (shape A)"
  by (simp add: rowwise_accumulate_naive)

section \<open>A missing column\<close>

lemma scalar_step_missing:
  assumes "0 < length d"
  shows "scalar_step ker (ColReader [] b # ins) 0 d = Inl (OutOfRange b)"
  using assms by (simp add: scalar_step_def)

lemma pack_missing:
  assumes "0 < w"
  shows "pack w (ColReader [] b) d 0 = Inl (OutOfRange b)"
proof -
  have "[0..<0 + w] = 0 # [1..<w]" using assms by (simp add: upt_rec)
  then show ?thesis by (simp add: pack_def)
qed

lemma pack_step_missing:
  assumes "0 < w" "w \<le> length d"
  shows "pack_step w ker (ColReader [] b # ins) 0 d = Inl (OutOfRange b)"
proof -
  have "readable VecRef d (0 + w)" using assms by simp
  then have "pack w VecRef d 0 = Inr (map (peek VecRef d) [0..<0 + w])"
    by (rule pack_readable)
  then show ?thesis
    using pack_missing[OF assms(1), of b d] by (simp add: pack_step_def)
qed

lemma linear_ewise_eval_missing:
  assumes "0 < len" "len \<le> length d"
  shows "linear_ewise_eval len u ker (ColReader [] b # ins) d = Inl (OutOfRange b)"
proof -
  have st: "scalar_step ker (ColReader [] b # ins) 0 d = Inl (OutOfRange b)"
    using assms by (intro scalar_step_missing) auto
  show ?thesis
  proof (cases u)
  case Scalar
  have "[0..<len] = 0 # [1..<len]" using assms(1) by (simp add: upt_rec)
  then show ?thesis
    by (simp add: Scalar st)
next
  case (Simd w)
  show ?thesis
  proof (cases "len div w = 0")
    case True
    have "[0..<len] = 0 # [1..<len]" using assms(1) by (simp add: upt_rec)
    then show ?thesis
      using True by (simp add: Simd st)
  next
    case False
    then have w: "0 < w" "w \<le> len" 
      by (auto simp: div_eq_0_iff intro: Nat.gr0I)
    have "[0..<len div w] = 0 # [1..<len div w]" using False by (simp add: upt_rec)
    then have "map (\<lambda>p. p * w) [0..<len div w] = 0 # map (\<lambda>p. p * w) [1..<len div w]"
      by simp
    moreover have "pack_step w ker (ColReader [] b # ins) 0 d = Inl (OutOfRange b)"
      using w assms by (intro pack_step_missing) simp_all
    ultimately show ?thesis by (simp add: Simd)
  qed
  qed
qed

lemma col_missing:
  assumes "has_shape A sh" "ncolumns sh = 0"
  shows "col (make_multicol_accessor u A) 0 = ColReader [] 0"
  using assms by (simp add: col_def make_multicol_accessor_def has_shape_def nelems_def)

lemma rowwise_fold_impl_missing:
  assumes "has_shape A sh" "ncolumns sh = 0" "0 < nrows sh" "length dmat = nrows sh"
  shows "rowwise_fold_impl sh u rfun dmat (make_multicol_accessor u' A) = Inl (OutOfRange 0)"
proof -
  have "linear_ewise_eval (nrows sh) u copy_kernel [ColReader [] 0] dmat = Inl (OutOfRange 0)"
    using assms by (intro linear_ewise_eval_missing) simp_all
  then show ?thesis
    by (simp add: rowwise_fold_impl_def col_missing[OF assms(1,2)])
qed

lemma rowwise_foldx_impl_missing:
  assumes "has_shape A sh" "ncolumns sh = 0" "0 < nrows sh" "length dmat = nrows sh"
  shows "rowwise_foldx_impl sh u rfun dmat tfun (map (make_multicol_accessor u') (A # Bs)) =
           Inl (OutOfRange 0)"
proof -
  have "linear_ewise_eval (nrows sh) u (map_kernel tfun)
          (ColReader [] 0 # map (\<lambda>rd. col rd 0) (map (make_multicol_accessor u') Bs)) dmat =
        Inl (OutOfRange 0)"
    using assms by (intro linear_ewise_eval_missing) simp_all
  then show ?thesis
    by (simp add: rowwise_foldx_impl_def col_missing[OF assms(1,2)])
qed

section \<open>The identity transform\<close>

lemma map_kernel_identity: "map_kernel identity_tfun = copy_kernel"
  by (simp add: map_kernel_def identity_tfun_def copy_kernel_def)

lemma foldx_kernel_identity: "foldx_kernel rfun identity_tfun = fold_kernel rfun"
  by (simp add: foldx_kernel_def identity_tfun_def fold_kernel_def)

lemma vecfoldf_kernel_apply_identity:
  "vecfoldf_kernel_apply folder identity_tfun u len [rd] = vecfold_kernel_apply folder u len rd"
proof -
  have s: "(\<lambda>i. case sequence_err (map (\<lambda>rd. scalar rd [] i) [rd]) of
                  Inl e \<Rightarrow> Inl e
                | Inr xs \<Rightarrow> Inr (tf_scalar identity_tfun xs)) = (\<lambda>i. scalar rd [] i)"
    by (rule ext) (simp add: identity_tfun_def split: sum.splits)
  have p: "(\<lambda>w i. case sequence_err (map (\<lambda>rd. pack w rd [] i) [rd]) of
                    Inl e \<Rightarrow> Inl e
                  | Inr ps \<Rightarrow> Inr (tf_pack identity_tfun ps)) = (\<lambda>w i. pack w rd [] i)"
    by (intro ext) (simp add: identity_tfun_def split: sum.splits)
  show ?thesis
    unfolding vecfoldf_kernel_apply_def vecfold_kernel_apply_def s p by (rule refl)
qed

lemma colwise_foldx_impl_identity:
  "colwise_foldx_impl sh u folder dmat identity_tfun [rd] = colwise_fold_impl sh u folder dmat rd"
  unfolding colwise_foldx_impl_def colwise_fold_impl_def Let_def list.map
    vecfoldf_kernel_apply_identity
  by (rule refl)

lemma rowwise_foldx_impl_identity:
  "rowwise_foldx_impl sh u rfun dmat identity_tfun [rd] = rowwise_fold_impl sh u rfun dmat rd"
  unfolding rowwise_foldx_impl_def rowwise_fold_impl_def Let_def map_kernel_identity
    foldx_kernel_identity list.map
  by (rule refl)

section \<open>In-place and fresh evaluation of a sum\<close>

lemma map_apply_add:
  assumes len: "length d = len" and rd: "readable p d len" "readable q d len"
  shows "map_apply add_fun u len [p, q] d = Inr (map (\<lambda>i. peek p d i + peek q d i) [0..<len])"
  by (rule map_apply_binary[OF _ _ len rd]) (simp_all add: add_fun_def)

lemma mat_add_ip_elems:
  assumes "has_shape A sh" "has_shape B sh"
  shows "mat_add_ip u A B =
           Inr \<lparr>shape = sh, elems = map (\<lambda>i. elems A ! i + elems B ! i) [0..<nelems sh]\<rparr>"
proof -
  have sh: "shape A = sh" "shape B = sh" "length (elems A) = nelems sh"
    "length (elems B) = nelems sh"
    using assms by (simp_all add: has_shape_def)
  have "map_apply add_fun u (nelems sh) [VecRef, ColReader (elems B) 0] (elems A) =
          Inr (map (\<lambda>i. peek VecRef (elems A) i + peek (ColReader (elems B) 0) (elems A) i)
                 [0..<nelems sh])"
    using sh by (intro map_apply_add) simp_all
  then show ?thesis by (simp add: mat_add_ip_def sh)
qed

lemma mat_add_elems:
  assumes "has_shape A sh" "has_shape B sh" "length init = nelems sh"
  shows "mat_add u init A B =
           Inr \<lparr>shape = sh, elems = map (\<lambda>i. elems A ! i + elems B ! i) [0..<nelems sh]\<rparr>"
proof -
  have sh: "shape A = sh" "shape B = sh" "length (elems A) = nelems sh"
    "length (elems B) = nelems sh"
    using assms by (simp_all add: has_shape_def)
  have "map_apply add_fun u (nelems sh) [ColReader (elems A) 0, ColReader (elems B) 0] init =
          Inr (map (\<lambda>i. peek (ColReader (elems A) 0) init i + peek (ColReader (elems B) 0) init i)
                 [0..<nelems sh])"
    using sh assms(3) by (intro map_apply_add) simp_all
  then show ?thesis by (simp add: mat_add_def sh)
qed

lemma mat_add_scalar_ip_elems:
  assumes "has_shape A sh"
  shows "mat_add_scalar_ip u A c =
           Inr \<lparr>shape = sh, elems = map (\<lambda>i. elems A ! i + c) [0..<nelems sh]\<rparr>"
proof -
  have sh: "shape A = sh" "length (elems A) = nelems sh"
    using assms by (simp_all add: has_shape_def)
  have "map_apply add_fun u (nelems sh) [VecRef, Single c] (elems A) =
          Inr (map (\<lambda>i. peek VecRef (elems A) i + peek (Single c) (elems A) i) [0..<nelems sh])"
    using sh by (intro map_apply_add) simp_all
  then show ?thesis by (simp add: mat_add_scalar_ip_def sh)
qed

lemma mat_add_scalar_elems:
  assumes "has_shape A sh" "length init = nelems sh"
  shows "mat_add_scalar u init A c =
           Inr \<lparr>shape = sh, elems = map (\<lambda>i. elems A ! i + c) [0..<nelems sh]\<rparr>"
proof -
  have sh: "shape A = sh" "length (elems A) = nelems sh"
    using assms by (simp_all add: has_shape_def)
  have "map_apply add_fun u (nelems sh) [ColReader (elems A) 0, Single c] init =
          Inr (map (\<lambda>i. peek (ColReader (elems A) 0) init i + peek (Single c) init i)
                 [0..<nelems sh])"
    using sh assms(2) by (intro map_apply_add) simp_all
  then show ?thesis by (simp add: mat_add_scalar_def sh)
qed

lemma has_shape_test_operands:
  "has_shape (test_operand_A T m n) \<lparr>nrows = m, ncolumns = n\<rparr>"
  "has_shape (test_operand_B T m n) \<lparr>nrows = m, ncolumns = n\<rparr>"
  by (simp_all add: has_shape_def test_operand_A_def test_operand_B_def nelems_def)

section \<open>The claims\<close>

text \<open>
  Claim C3.  For an operand with \<open>m\<close> rows and \<open>n \<ge> 1\<close> columns and an output vector of
  length \<open>m\<close>, the rowwise sum, maximum and minimum drivers return the vector whose slot
  \<open>i\<close> is the sequential fold of row \<open>i\<close>, started from its element in column 0 and
  continued over the columns \<open>1, ..., n - 1\<close>.  The result is the vector that the
  algorithm of the spec builds: column 0, into which each later column is combined
  element by element (\<open>rowwise_accumulate\<close>).  For \<open>n = 1\<close> the rowwise sum is the input
  column itself.  This holds for every pack width \<open>w\<close>, also when \<open>m\<close> is not a multiple
  of it, and for an arbitrary arithmetic of \<open>T\<close>.
\<close>

theorem rowwise_fold_correct:
  fixes T :: "'a::{plus,ord,uminus} value_type"
  assumes "has_shape A sh" and "length dmat = nrows sh" and "1 \<le> ncolumns sh"
  shows "internal_rowwise_sum T sh w dmat A =
           Inr (map (\<lambda>i. foldl (\<lambda>a x. a + x) (entry A i 0) (map (entry A i) [1..<ncolumns sh]))
                  [0..<nrows sh])
       \<and> internal_rowwise_maximum T sh w dmat A =
           Inr (map (\<lambda>i. foldl (\<lambda>a x. if x > a then x else a) (entry A i 0)
                          (map (entry A i) [1..<ncolumns sh]))
                  [0..<nrows sh])
       \<and> internal_rowwise_minimum T sh w dmat A =
           Inr (map (\<lambda>i. foldl (\<lambda>a x. if x < a then x else a) (entry A i 0)
                          (map (entry A i) [1..<ncolumns sh]))
                  [0..<nrows sh])
       \<and> internal_rowwise_sum T sh w dmat A = Inr (rowwise_accumulate (sum_folder T) A)
       \<and> internal_rowwise_maximum T sh w dmat A = Inr (rowwise_accumulate (maximum_folder T) A)
       \<and> internal_rowwise_minimum T sh w dmat A = Inr (rowwise_accumulate (minimum_folder T) A)
       \<and> (ncolumns sh = 1 \<longrightarrow> internal_rowwise_sum T sh w dmat A = Inr (elems A))"
proof -
  have sh: "shape A = sh" using assms(1) by (simp add: has_shape_def)
  have s: "internal_rowwise_sum T sh w dmat A = Inr (rowwise_accumulate (sum_folder T) A)"
    unfolding internal_rowwise_sum_def
    by (rule rowwise_fold_impl_accumulate[OF assms lanewise_sum_folder])
  have mx: "internal_rowwise_maximum T sh w dmat A = Inr (rowwise_accumulate (maximum_folder T) A)"
    unfolding internal_rowwise_maximum_def
    by (rule rowwise_fold_impl_accumulate[OF assms lanewise_maximum_folder])
  have mn: "internal_rowwise_minimum T sh w dmat A = Inr (rowwise_accumulate (minimum_folder T) A)"
    unfolding internal_rowwise_minimum_def
    by (rule rowwise_fold_impl_accumulate[OF assms lanewise_minimum_folder])
  have s': "rowwise_accumulate (sum_folder T) A =
              map (\<lambda>i. foldl (\<lambda>a x. a + x) (entry A i 0) (map (entry A i) [1..<ncolumns sh]))
                [0..<nrows sh]"
    unfolding rowwise_accumulate_naive by (simp add: naive_row_fold_def sum_folder_def sh)
  have mx': "rowwise_accumulate (maximum_folder T) A =
              map (\<lambda>i. foldl (\<lambda>a x. if x > a then x else a) (entry A i 0)
                         (map (entry A i) [1..<ncolumns sh]))
                [0..<nrows sh]"
    unfolding rowwise_accumulate_naive by (simp add: naive_row_fold_def maximum_folder_def sh)
  have mn': "rowwise_accumulate (minimum_folder T) A =
              map (\<lambda>i. foldl (\<lambda>a x. if x < a then x else a) (entry A i 0)
                         (map (entry A i) [1..<ncolumns sh]))
                [0..<nrows sh]"
    unfolding rowwise_accumulate_naive by (simp add: naive_row_fold_def minimum_folder_def sh)
  have one: "internal_rowwise_sum T sh w dmat A = Inr (elems A)" if "ncolumns sh = 1"
    unfolding s using that column_single[OF assms(1) that] sh
    by (simp add: rowwise_accumulate_def)
  show ?thesis using s mx mn s' mx' mn' one by simp
qed

theorem rowwise_fold_correct_witness:
  "internal_rowwise_sum fp \<lparr>nrows = 3, ncolumns = 2\<rparr> 2 [NaN, NaN, NaN]
       \<lparr>shape = \<lparr>nrows = 3, ncolumns = 2\<rparr>, elems = [Fin 1, Fin 5, Fin 3, Fin 4, Fin (- 2), Fin 6]\<rparr>
     = Inr [Fin 5, Fin 3, Fin 9]
   \<and> internal_rowwise_maximum fp \<lparr>nrows = 3, ncolumns = 2\<rparr> 2 [NaN, NaN, NaN]
       \<lparr>shape = \<lparr>nrows = 3, ncolumns = 2\<rparr>, elems = [Fin 1, Fin 5, Fin 3, Fin 4, Fin (- 2), Fin 6]\<rparr>
     = Inr [Fin 4, Fin 5, Fin 6]
   \<and> internal_rowwise_minimum fp \<lparr>nrows = 3, ncolumns = 2\<rparr> 2 [NaN, NaN, NaN]
       \<lparr>shape = \<lparr>nrows = 3, ncolumns = 2\<rparr>, elems = [Fin 1, Fin 5, Fin 3, Fin 4, Fin (- 2), Fin 6]\<rparr>
     = Inr [Fin 1, Fin (- 2), Fin 3]
   \<and> internal_rowwise_sum fp \<lparr>nrows = 3, ncolumns = 1\<rparr> 2 [NaN, NaN, NaN]
       \<lparr>shape = \<lparr>nrows = 3, ncolumns = 1\<rparr>, elems = [Fin 1, Fin 5, Fin 3]\<rparr>
     = Inr [Fin 1, Fin 5, Fin 3]"
proof -
  let ?sh = "\<lparr>nrows = 3, ncolumns = 2\<rparr>"
  let ?A = "\<lparr>shape = ?sh, elems = [Fin 1, Fin 5, Fin 3, Fin 4, Fin (- 2), Fin 6]\<rparr>"
  let ?sc = "\<lparr>nrows = 3, ncolumns = 1\<rparr>"
  let ?C = "\<lparr>shape = ?sc, elems = [Fin 1, Fin 5, Fin 3]\<rparr>"
  have A: "has_shape ?A ?sh" unfolding has_shape_def nelems_def by simp
  have C: "has_shape ?C ?sc" unfolding has_shape_def nelems_def by simp
  have l: "length [NaN, NaN, NaN] = nrows ?sh" "length [NaN, NaN, NaN] = nrows ?sc" by simp_all
  have n: "1 \<le> ncolumns ?sh" "1 \<le> ncolumns ?sc" by simp_all
  have r: "[0..<3] = [0, Suc 0, Suc (Suc 0)]" "[Suc 0..<2] = [Suc 0]" by (simp_all add: upt_rec)
  note full = rowwise_fold_correct[OF A l(1) n(1), of fp 2]
  have "ncolumns ?sc = 1" by simp
  note single = rowwise_fold_correct[OF C l(2) n(2), of fp 2, THEN conjunct2, THEN conjunct2,
      THEN conjunct2, THEN conjunct2, THEN conjunct2, THEN conjunct2, rule_format, OF this]
  from full[THEN conjunct1] full[THEN conjunct2, THEN conjunct1]
    full[THEN conjunct2, THEN conjunct2, THEN conjunct1] have
    "internal_rowwise_sum fp ?sh 2 [NaN, NaN, NaN] ?A = Inr [Fin 5, Fin 3, Fin 9]"
    "internal_rowwise_maximum fp ?sh 2 [NaN, NaN, NaN] ?A = Inr [Fin 4, Fin 5, Fin 6]"
    "internal_rowwise_minimum fp ?sh 2 [NaN, NaN, NaN] ?A = Inr [Fin 1, Fin (- 2), Fin 3]"
    by (simp_all add: r entry_def)
  moreover from single have
    "internal_rowwise_sum fp ?sc 2 [NaN, NaN, NaN] ?C = Inr [Fin 1, Fin 5, Fin 3]"
    by simp
  ultimately show ?thesis by simp
qed

text \<open>
  Claim C4.  For an operand with \<open>n \<ge> 1\<close> columns, the rowwise mean is the rowwise sum
  accumulation followed by the multiplication of every slot of the output vector by the
  scalar \<open>T(1) / T(n)\<close>: an element-wise multiply of the vector, read and written in place,
  against the broadcast scalar.
\<close>

theorem rowwise_mean_correct:
  fixes T :: "'a::{plus,times,inverse} value_type"
  assumes "has_shape A sh" and "length dmat = nrows sh" and "1 \<le> ncolumns sh"
  shows "internal_rowwise_mean T sh w dmat A =
           (case internal_rowwise_sum T sh w dmat A of
              Inl e \<Rightarrow> Inl e
            | Inr s \<Rightarrow> Inr (map (\<lambda>x. x * (cast T 1 / cast T (ncolumns sh))) s))
       \<and> internal_rowwise_mean T sh w dmat A =
           Inr (map (\<lambda>i. foldl (\<lambda>a x. a + x) (entry A i 0) (map (entry A i) [1..<ncolumns sh])
                          * (cast T 1 / cast T (ncolumns sh)))
                  [0..<nrows sh])"
proof -
  let ?s = "rowwise_accumulate (sum_folder T) A"
  let ?c = "cast T 1 / cast T (ncolumns sh)"
  have sh: "shape A = sh" using assms(1) by (simp add: has_shape_def)
  have acc: "rowwise_fold_impl sh (Simd w) (sum_folder T) dmat (make_multicol_accessor (Simd w) A) =
               Inr ?s"
    by (rule rowwise_fold_impl_accumulate[OF assms lanewise_sum_folder])
  have ls: "length ?s = nrows sh" using sh by simp
  have scale: "map_apply mul_fun (Simd w) (nrows sh) [VecRef, Single ?c] ?s =
                      Inr (map (\<lambda>x. x * ?c) ?s)"
    using map_apply_scale[of "Simd w" ?s ?c] unfolding ls .
  have mean: "internal_rowwise_mean T sh w dmat A = Inr (map (\<lambda>x. x * ?c) ?s)"
    unfolding internal_rowwise_mean_def acc by (simp only: sum.case Let_def scale)
  have sum: "internal_rowwise_sum T sh w dmat A = Inr ?s"
    unfolding internal_rowwise_sum_def by (rule acc)
  have "?s = map (\<lambda>i. foldl (\<lambda>a x. a + x) (entry A i 0) (map (entry A i) [1..<ncolumns sh]))
               [0..<nrows sh]"
    unfolding rowwise_accumulate_naive by (simp add: naive_row_fold_def sum_folder_def sh)
  then have "map (\<lambda>x. x * ?c) ?s =
           map (\<lambda>i. foldl (\<lambda>a x. a + x) (entry A i 0) (map (entry A i) [1..<ncolumns sh]) * ?c)
             [0..<nrows sh]"
    by (simp add: comp_def)
  then show ?thesis using mean sum by simp
qed

theorem rowwise_mean_correct_witness:
  "internal_rowwise_mean fp \<lparr>nrows = 3, ncolumns = 2\<rparr> 2 [NaN, NaN, NaN]
       \<lparr>shape = \<lparr>nrows = 3, ncolumns = 2\<rparr>, elems = [Fin 1, Fin 5, Fin 3, Fin 4, Fin (- 2), Fin 6]\<rparr>
     = Inr [Fin (5 / 2), Fin (3 / 2), Fin (9 / 2)]"
proof -
  let ?sh = "\<lparr>nrows = 3, ncolumns = 2\<rparr>"
  let ?A = "\<lparr>shape = ?sh, elems = [Fin 1, Fin 5, Fin 3, Fin 4, Fin (- 2), Fin 6]\<rparr>"
  have A: "has_shape ?A ?sh" unfolding has_shape_def nelems_def by simp
  have l: "length [NaN, NaN, NaN] = nrows ?sh" by simp
  have n: "1 \<le> ncolumns ?sh" by simp
  have r: "[0..<3] = [0, Suc 0, Suc (Suc 0)]" "[Suc 0..<2] = [Suc 0]" by (simp_all add: upt_rec)
  have c: "cast fp (Suc 0) / cast fp 2 = Fin (1 / 2)" by (simp add: fp_def)
  from rowwise_mean_correct[OF A l n, of fp 2, THEN conjunct2] show ?thesis
    by (simp add: r entry_def c)
qed

text \<open>
  Claim C5.  No rowwise driver looks at the column count before it reads column 0: the
  first statement of \<^verbatim>\<open>rowwise_fold_impl\<close> and of \<^verbatim>\<open>rowwise_foldx_impl\<close> evaluates the
  kernel over \<^verbatim>\<open>rd.col(0)\<close>.  For an operand with \<open>n = 0\<close> columns and \<open>m > 0\<close> rows, every
  driver, plain or transformed, of every kind, therefore ends in the read of element 0 of
  a column that does not exist, and returns no vector of empty values.  (With \<open>m = 0\<close>
  the output vector has no slot and no element is read.)
\<close>

theorem rowwise_zero_columns:
  fixes T :: "'a::{plus,times,inverse,ord,uminus} value_type"
  assumes "has_shape A sh" and "ncolumns sh = 0" and "0 < nrows sh" and "length dmat = nrows sh"
  shows "internal_rowwise_sum T sh w dmat A = Inl (OutOfRange 0)
       \<and> internal_rowwise_mean T sh w dmat A = Inl (OutOfRange 0)
       \<and> internal_rowwise_maximum T sh w dmat A = Inl (OutOfRange 0)
       \<and> internal_rowwise_minimum T sh w dmat A = Inl (OutOfRange 0)
       \<and> internal_rowwise_sumx T sh w dmat tfun (A # Bs) = Inl (OutOfRange 0)
       \<and> internal_rowwise_meanx T sh w dmat tfun (A # Bs) = Inl (OutOfRange 0)
       \<and> internal_rowwise_maximumx T sh w dmat tfun (A # Bs) = Inl (OutOfRange 0)
       \<and> internal_rowwise_minimumx T sh w dmat tfun (A # Bs) = Inl (OutOfRange 0)"
  unfolding internal_rowwise_sum_def internal_rowwise_mean_def internal_rowwise_maximum_def
    internal_rowwise_minimum_def internal_rowwise_sumx_def internal_rowwise_meanx_def
    internal_rowwise_maximumx_def internal_rowwise_minimumx_def
    rowwise_fold_impl_missing[OF assms] rowwise_foldx_impl_missing[OF assms]
  by simp

theorem rowwise_zero_columns_witness:
  "internal_rowwise_sum fp \<lparr>nrows = 3, ncolumns = 0\<rparr> 2 [NaN, NaN, NaN]
       \<lparr>shape = \<lparr>nrows = 3, ncolumns = 0\<rparr>, elems = []\<rparr> = Inl (OutOfRange 0)
   \<and> internal_rowwise_maximum fp \<lparr>nrows = 3, ncolumns = 0\<rparr> 2 [NaN, NaN, NaN]
       \<lparr>shape = \<lparr>nrows = 3, ncolumns = 0\<rparr>, elems = []\<rparr> = Inl (OutOfRange 0)
   \<and> internal_rowwise_meanx fp \<lparr>nrows = 3, ncolumns = 0\<rparr> 2 [NaN, NaN, NaN] mul_fun
       [\<lparr>shape = \<lparr>nrows = 3, ncolumns = 0\<rparr>, elems = []\<rparr>,
        \<lparr>shape = \<lparr>nrows = 3, ncolumns = 0\<rparr>, elems = []\<rparr>] = Inl (OutOfRange 0)"
proof -
  let ?sh = "\<lparr>nrows = 3, ncolumns = 0\<rparr>"
  let ?E = "\<lparr>shape = ?sh, elems = []\<rparr> :: fpval dense_matrix"
  have E: "has_shape ?E ?sh" unfolding has_shape_def nelems_def by simp
  have h: "ncolumns ?sh = 0" "0 < nrows ?sh" "length [NaN, NaN, NaN] = nrows ?sh" by simp_all
  from rowwise_zero_columns[OF E h, of fp 2 mul_fun "[?E]"] show ?thesis by simp
qed

text \<open>
  Claim C6.  With the identity transform and one operand, each transformed driver
  (colwise and rowwise; sum, mean, maximum and minimum) returns exactly what the plain
  driver returns on that operand, for every shape, every pack width and every output
  vector, failures included.
\<close>

theorem foldx_identity:
  fixes T :: "'a::{plus,times,inverse,ord,uminus} value_type"
  shows "internal_colwise_sumx T sh w dmat identity_tfun [A] = internal_colwise_sum T sh w dmat A
       \<and> internal_colwise_meanx T sh w dmat identity_tfun [A] = internal_colwise_mean T sh w dmat A
       \<and> internal_colwise_maximumx T sh w dmat identity_tfun [A] =
           internal_colwise_maximum T sh w dmat A
       \<and> internal_colwise_minimumx T sh w dmat identity_tfun [A] =
           internal_colwise_minimum T sh w dmat A
       \<and> internal_rowwise_sumx T sh w dmat identity_tfun [A] = internal_rowwise_sum T sh w dmat A
       \<and> internal_rowwise_meanx T sh w dmat identity_tfun [A] = internal_rowwise_mean T sh w dmat A
       \<and> internal_rowwise_maximumx T sh w dmat identity_tfun [A] =
           internal_rowwise_maximum T sh w dmat A
       \<and> internal_rowwise_minimumx T sh w dmat identity_tfun [A] =
           internal_rowwise_minimum T sh w dmat A"
  unfolding internal_colwise_sumx_def internal_colwise_meanx_def internal_colwise_maximumx_def
    internal_colwise_minimumx_def internal_rowwise_sumx_def internal_rowwise_meanx_def
    internal_rowwise_maximumx_def internal_rowwise_minimumx_def
    internal_colwise_sum_def internal_colwise_mean_def internal_colwise_maximum_def
    internal_colwise_minimum_def internal_rowwise_sum_def internal_rowwise_mean_def
    internal_rowwise_maximum_def internal_rowwise_minimum_def
  by (simp add: colwise_foldx_impl_identity rowwise_foldx_impl_identity)

theorem foldx_identity_witness:
  "internal_colwise_sumx fp \<lparr>nrows = 3, ncolumns = 2\<rparr> 2 [NaN, NaN] identity_tfun
       [\<lparr>shape = \<lparr>nrows = 3, ncolumns = 2\<rparr>,
         elems = [Fin 1, Fin 5, Fin 3, Fin 4, Fin (- 2), Fin 6]\<rparr>]
     = internal_colwise_sum fp \<lparr>nrows = 3, ncolumns = 2\<rparr> 2 [NaN, NaN]
       \<lparr>shape = \<lparr>nrows = 3, ncolumns = 2\<rparr>, elems = [Fin 1, Fin 5, Fin 3, Fin 4, Fin (- 2), Fin 6]\<rparr>
   \<and> internal_rowwise_minimumx fp \<lparr>nrows = 3, ncolumns = 2\<rparr> 2 [NaN, NaN, NaN] identity_tfun
       [\<lparr>shape = \<lparr>nrows = 3, ncolumns = 2\<rparr>,
         elems = [Fin 1, Fin 5, Fin 3, Fin 4, Fin (- 2), Fin 6]\<rparr>]
     = internal_rowwise_minimum fp \<lparr>nrows = 3, ncolumns = 2\<rparr> 2 [NaN, NaN, NaN]
       \<lparr>shape = \<lparr>nrows = 3, ncolumns = 2\<rparr>, elems = [Fin 1, Fin 5, Fin 3, Fin 4, Fin (- 2), Fin 6]\<rparr>"
  using foldx_identity[of fp "\<lparr>nrows = 3, ncolumns = 2\<rparr>" 2 _ 
      "\<lparr>shape = \<lparr>nrows = 3, ncolumns = 2\<rparr>, elems = [Fin 1, Fin 5, Fin 3, Fin 4, Fin (- 2), Fin 6]\<rparr>"]
  by blast

text \<open>
  Claim C7.  For every element type and every pack width \<open>w\<close>, \<^verbatim>\<open>load_part(k, ptr)\<close> with
  \<open>0 < k < w\<close> yields a pack of \<open>w\<close> lanes whose lanes \<open>0, ..., k - 1\<close> are the first \<open>k\<close>
  source elements and whose lanes \<open>k, ..., w - 1\<close> are zero; with \<open>k = w\<close> it is the
  full-width load, unaligned or (at an aligned address) aligned.
\<close>

theorem load_part_zero_fill:
  fixes mem :: "'a::zero list"
  assumes "0 < k" and "k < w" and "p + k \<le> length mem"
  shows "(\<exists>pk. load_part w k mem p = Inr pk \<and> length pk = w
            \<and> (\<forall>l<k. pk ! l = mem ! (p + l))
            \<and> (\<forall>l. k \<le> l \<and> l < w \<longrightarrow> pk ! l = 0))
       \<and> load_part w w mem p = load_u w mem p
       \<and> (p mod w = 0 \<longrightarrow> load_part w w mem p = load_a w mem p)"
proof -
  let ?pk = "take k (drop p mem) @ replicate (w - k) 0"
  have lp: "load_part w k mem p = Inr ?pk" using assms by (simp add: load_part_def)
  have len: "length ?pk = w" using assms by simp
  have lo: "?pk ! l = mem ! (p + l)" if "l < k" for l
    using that assms by (simp add: nth_append)
  have hi: "?pk ! l = 0" if "k \<le> l" "l < w" for l
    using that assms by (simp add: nth_append)
  have full: "load_part w w mem p = load_u w mem p"
    using assms by (simp add: load_part_def load_u_def)
  have "load_part w w mem p = load_a w mem p" if "p mod w = 0"
    using that full by (simp add: load_a_def)
  then show ?thesis using lp len lo hi full by blast
qed

theorem load_part_zero_fill_witness:
  "load_part 4 3 [Fin 9, Fin 1, Fin 2, Fin 3, Fin 4] 1 = Inr [Fin 1, Fin 2, Fin 3, 0]
   \<and> load_part 4 4 [Fin 9, Fin 1, Fin 2, Fin 3, Fin 4] 1 = load_u 4 [Fin 9, Fin 1, Fin 2, Fin 3, Fin 4] 1"
proof -
  have "(0::nat) < 3" "(3::nat) < 4" "1 + 3 \<le> length [Fin 9, Fin 1, Fin 2, Fin 3, Fin 4]"
    by simp_all
  from load_part_zero_fill[OF this] have
    "load_part 4 4 [Fin 9, Fin 1, Fin 2, Fin 3, Fin 4] 1 = load_u 4 [Fin 9, Fin 1, Fin 2, Fin 3, Fin 4] 1"
    by blast
  moreover have "load_part 4 3 [Fin 9, Fin 1, Fin 2, Fin 3, Fin 4] 1 = Inr [Fin 1, Fin 2, Fin 3, 0]"
    by (simp add: load_part_def numeral_3_eq_3)
  ultimately show ?thesis by simp
qed

text \<open>
  Claim C8.  For every element type and every pack width \<open>w\<close>, \<^verbatim>\<open>store_part(k, ptr)\<close> with
  \<open>0 < k \<le> w\<close> writes the lanes \<open>0, ..., k - 1\<close> of the pack to the destination slots
  \<open>0, ..., k - 1\<close> and leaves the slots \<open>k, ..., w - 1\<close>, and all other memory, unchanged.
\<close>

theorem store_part_preserves:
  assumes "0 < k" and "k \<le> w" and "length pk = w" and "p + w \<le> length mem"
  shows "\<exists>mem'. store_part w k pk mem p = Inr mem' \<and> length mem' = length mem
           \<and> (\<forall>l<k. mem' ! (p + l) = pk ! l)
           \<and> (\<forall>l. k \<le> l \<and> l < w \<longrightarrow> mem' ! (p + l) = mem ! (p + l))
           \<and> (\<forall>i<length mem. i < p \<or> p + k \<le> i \<longrightarrow> mem' ! i = mem ! i)"
proof -
  let ?m = "take p mem @ take k pk @ drop (p + k) mem"
  have sp: "store_part w k pk mem p = Inr ?m" using assms by (simp add: store_part_def)
  have len: "length ?m = length mem" using assms by simp
  have wr: "?m ! (p + l) = pk ! l" if "l < k" for l
    using that assms by (simp add: nth_append)
  have fr: "?m ! i = mem ! i" if "i < length mem" "i < p \<or> p + k \<le> i" for i
  proof (cases "i < p")
    case True
    then show ?thesis using assms by (simp add: nth_append)
  next
    case False
    with that have "p + k \<le> i" by simp
    then obtain t where i: "i = p + k + t" using le_Suc_ex by blast
    have lt: "length (take p mem) = p" "length (take k pk) = k" using assms by simp_all
    have "?m ! i = drop (p + k) mem ! t"
      unfolding i using lt by (simp add: nth_append)
    then show ?thesis using that assms by (simp add: i)
  qed
  have frw: "?m ! (p + l) = mem ! (p + l)" if "k \<le> l" "l < w" for l
    using that assms by (intro fr) simp_all
  show ?thesis using sp len wr fr frw by blast
qed

theorem store_part_preserves_witness:
  "store_part 4 3 [Fin 1, Fin 2, Fin 3, Fin 4] [NaN, PInf, PInf, PInf, PInf, NInf] 1
     = Inr [NaN, Fin 1, Fin 2, Fin 3, PInf, NInf]"
proof -
  have "(0::nat) < 3" "(3::nat) \<le> 4" "length [Fin 1, Fin 2, Fin 3, Fin 4] = 4"
    "1 + 4 \<le> length [NaN, PInf, PInf, PInf, PInf, NInf]"
    by simp_all
  from store_part_preserves[OF this] obtain mem' where
    "store_part 4 3 [Fin 1, Fin 2, Fin 3, Fin 4] [NaN, PInf, PInf, PInf, PInf, NInf] 1 = Inr mem'"
    by blast
  then show ?thesis by (simp add: store_part_def numeral_3_eq_3)
qed

text \<open>
  Claim C9.  A full-width pack loaded from a buffer \<open>x\<close> of exactly \<open>w\<close> elements and
  stored into a destination of \<open>w\<close> elements reproduces \<open>x\<close> there: at arbitrary offsets
  with \<^verbatim>\<open>load_u\<close> and \<^verbatim>\<open>store_u\<close>, at aligned offsets with \<^verbatim>\<open>load_a\<close> and \<^verbatim>\<open>store_a\<close>;
  stored back over \<open>x\<close> itself, it leaves \<open>x\<close> as it is.
\<close>

theorem pack_round_trip:
  assumes "length x = w" and "length dst = w"
  shows "(case load_u w (pre @ x @ post) (length pre) of
            Inl e \<Rightarrow> Inl e
          | Inr pk \<Rightarrow> store_u w pk (pre' @ dst @ post') (length pre')) = Inr (pre' @ x @ post')
       \<and> (length pre mod w = 0 \<longrightarrow> length pre' mod w = 0 \<longrightarrow>
            (case load_a w (pre @ x @ post) (length pre) of
               Inl e \<Rightarrow> Inl e
             | Inr pk \<Rightarrow> store_a w pk (pre' @ dst @ post') (length pre')) = Inr (pre' @ x @ post'))
       \<and> (case load_a w x 0 of Inl e \<Rightarrow> Inl e | Inr pk \<Rightarrow> store_a w pk x 0) = Inr x
       \<and> (case load_u w x 0 of Inl e \<Rightarrow> Inl e | Inr pk \<Rightarrow> store_u w pk x 0) = Inr x"
proof -
  have lu: "load_u w (pre @ x @ post) (length pre) = Inr x" for pre post :: "'a list"
    using assms by (simp add: load_u_def)
  have su: "store_u w x (pre' @ dst @ post') (length pre') = Inr (pre' @ x @ post')"
    for pre' post' :: "'a list"
    using assms by (simp add: store_u_def)
  have u: "(case load_u w (pre @ x @ post) (length pre) of
              Inl e \<Rightarrow> Inl e
            | Inr pk \<Rightarrow> store_u w pk (pre' @ dst @ post') (length pre')) = Inr (pre' @ x @ post')"
    by (simp only: lu su sum.case)
  have a: "(case load_a w (pre @ x @ post) (length pre) of
               Inl e \<Rightarrow> Inl e
             | Inr pk \<Rightarrow> store_a w pk (pre' @ dst @ post') (length pre')) = Inr (pre' @ x @ post')"
    if "length pre mod w = 0" "length pre' mod w = 0"
    using that by (simp add: load_a_def store_a_def lu su)
  have lu0: "load_u w x 0 = Inr x" using assms by (simp add: load_u_def)
  have su0: "store_u w x x 0 = Inr x" using assms by (simp add: store_u_def)
  have u0: "(case load_u w x 0 of Inl e \<Rightarrow> Inl e | Inr pk \<Rightarrow> store_u w pk x 0) = Inr x"
    by (simp only: lu0 su0 sum.case)
  have a0: "(case load_a w x 0 of Inl e \<Rightarrow> Inl e | Inr pk \<Rightarrow> store_a w pk x 0) = Inr x"
    by (simp add: load_a_def store_a_def lu0 su0)
  show ?thesis using u a u0 a0 by blast
qed

theorem pack_round_trip_witness:
  "(case load_u 2 ([NaN] @ [Fin 1, Fin 2] @ [NaN, NaN]) (length [NaN :: fpval]) of
      Inl e \<Rightarrow> Inl e
    | Inr pk \<Rightarrow> store_u 2 pk ([0] @ [0, 0] @ [0, 0]) (length [0 :: fpval]))
     = Inr [0, Fin 1, Fin 2, 0, 0]
   \<and> (case load_a 2 [Fin 1, Fin 2] 0 of Inl e \<Rightarrow> Inl e | Inr pk \<Rightarrow> store_a 2 pk [Fin 1, Fin 2] 0)
     = Inr [Fin 1, Fin 2]"
proof -
  have h: "length [Fin 1, Fin 2] = 2" "length [0 :: fpval, 0] = 2" by simp_all
  note rt = pack_round_trip[OF h, where pre = "[NaN]" and post = "[NaN, NaN]"
      and pre' = "[0]" and post' = "[0, 0]"]
  from rt[THEN conjunct1] rt[THEN conjunct2, THEN conjunct2, THEN conjunct1]
  show ?thesis by simp
qed

text \<open>
  Claim C10.  For matrices \<open>A\<close> and \<open>B\<close> of one shape, whatever it is, the in-place update
  \<^verbatim>\<open>A += B\<close> leaves in \<open>A\<close> what the freshly evaluated sum \<^verbatim>\<open>A + B\<close> holds, the
  element-wise sums; likewise \<^verbatim>\<open>A += c\<close> and \<^verbatim>\<open>A + c\<close> for a scalar \<open>c\<close>.  The two
  assertions of the test case \<^verbatim>\<open>add_ip\<close> hold for every shape, so for the tested shapes
  8 x 6, 1 x 1, 8 x 1 and 1 x 6.
\<close>

theorem add_in_place_equivalence:
  fixes A B :: "'a::plus dense_matrix"
  assumes "has_shape A sh" and "has_shape B sh" and "length init = nelems sh"
  shows "mat_add_ip u A B = mat_add u' init A B
       \<and> mat_add_ip u A B =
           Inr \<lparr>shape = sh, elems = map (\<lambda>i. elems A ! i + elems B ! i) [0..<nelems sh]\<rparr>
       \<and> mat_add_scalar_ip u A c = mat_add_scalar u' init A c
       \<and> mat_add_scalar_ip u A c =
           Inr \<lparr>shape = sh, elems = map (\<lambda>i. elems A ! i + c) [0..<nelems sh]\<rparr>
       \<and> mat_arith_add_ip T u m n"
proof -
  have t: "mat_arith_add_ip T u m n"
    unfolding mat_arith_add_ip_def Let_def
    using mat_add_ip_elems[OF has_shape_test_operands(1)[of T m n]
        has_shape_test_operands(2)[of T m n], of u]
      mat_add_scalar_ip_elems[OF has_shape_test_operands(1)[of T m n], of u]
    by (simp add: nelems_def)
  show ?thesis
    using mat_add_ip_elems[OF assms(1,2)] mat_add_elems[OF assms]
      mat_add_scalar_ip_elems[OF assms(1)] mat_add_scalar_elems[OF assms(1,3)] t
    by simp
qed

theorem add_in_place_equivalence_witness:
  "mat_add_ip (Simd 2)
      \<lparr>shape = \<lparr>nrows = 1, ncolumns = 3\<rparr>, elems = [Fin 1, Fin 2, Fin 3]\<rparr>
      \<lparr>shape = \<lparr>nrows = 1, ncolumns = 3\<rparr>, elems = [Fin 3, Fin 5, Fin 7]\<rparr>
     = Inr \<lparr>shape = \<lparr>nrows = 1, ncolumns = 3\<rparr>, elems = [Fin 4, Fin 7, Fin 10]\<rparr>
   \<and> mat_add Scalar [NaN, NaN, NaN]
      \<lparr>shape = \<lparr>nrows = 1, ncolumns = 3\<rparr>, elems = [Fin 1, Fin 2, Fin 3]\<rparr>
      \<lparr>shape = \<lparr>nrows = 1, ncolumns = 3\<rparr>, elems = [Fin 3, Fin 5, Fin 7]\<rparr>
     = Inr \<lparr>shape = \<lparr>nrows = 1, ncolumns = 3\<rparr>, elems = [Fin 4, Fin 7, Fin 10]\<rparr>
   \<and> mat_arith_add_ip fp (Simd 2) 8 6 \<and> mat_arith_add_ip fp (Simd 2) 1 1
   \<and> mat_arith_add_ip fp (Simd 2) 8 1 \<and> mat_arith_add_ip fp (Simd 2) 1 6"
proof -
  let ?sh = "\<lparr>nrows = 1, ncolumns = 3\<rparr>"
  let ?A = "\<lparr>shape = ?sh, elems = [Fin 1, Fin 2, Fin 3]\<rparr>"
  let ?B = "\<lparr>shape = ?sh, elems = [Fin 3, Fin 5, Fin 7]\<rparr>"
  have A: "has_shape ?A ?sh" unfolding has_shape_def nelems_def by simp
  have B: "has_shape ?B ?sh" unfolding has_shape_def nelems_def by simp
  have i: "length [NaN, NaN, NaN] = nelems ?sh" unfolding nelems_def by simp
  have r: "[0..<nelems ?sh] = [0, Suc 0, Suc (Suc 0)]" by (simp add: nelems_def upt_rec)
  note eq = add_in_place_equivalence[OF A B i, where u = "Simd 2" and u' = Scalar and T = fp
      and c = "Fin 0"]
  have "mat_add_ip (Simd 2) ?A ?B = Inr \<lparr>shape = ?sh, elems = [Fin 4, Fin 7, Fin 10]\<rparr>"
    using eq[where m = 8 and n = 6, THEN conjunct2, THEN conjunct1] unfolding r by simp
  moreover have "mat_add Scalar [NaN, NaN, NaN] ?A ?B = mat_add_ip (Simd 2) ?A ?B"
    using eq[where m = 8 and n = 6, THEN conjunct1] by simp
  moreover have "mat_arith_add_ip fp (Simd 2) 8 6" "mat_arith_add_ip fp (Simd 2) 1 1"
    "mat_arith_add_ip fp (Simd 2) 8 1" "mat_arith_add_ip fp (Simd 2) 1 6"
    using eq[where m = 8 and n = 6] eq[where m = 1 and n = 1] eq[where m = 8 and n = 1]
      eq[where m = 1 and n = 6]
    by blast+
  ultimately show ?thesis by simp
qed

end
